theory Spec2Isabelle
  imports Main
begin

section \<open>The data of \<^verbatim>\<open>vm/vm.go\<close>\<close>

text \<open>
  Every panic of the Go code is a value of \<open>error\<close>; a function that can panic returns
  \<open>error + result\<close>, with \<open>Inl\<close> for the panic. A panic ends the run, so no state comes
  back with it.
  \<^item> \<open>NothingToPop\<close>: \<^verbatim>\<open>panic("Nothing to pop!")\<close> in \<^verbatim>\<open>pop\<close>;
  \<^item> \<open>IndexOutOfRange\<close>: the runtime panic of \<^verbatim>\<open>xs[i]\<close> outside \<^verbatim>\<open>0 <= i < len(xs)\<close>;
  \<^item> \<open>NilDereference\<close>: the runtime panic of a field access through a nil pointer;
  \<^item> \<open>NilMapAssignment\<close>: the runtime panic of \<^verbatim>\<open>m[k] = v\<close> on a nil map;
  \<^item> \<open>UnmappedLabelType\<close>: \<^verbatim>\<open>setLabel\<close> on a name whose prefix is no key of
    \<^verbatim>\<open>labelTypes\<close> (see \<open>labelTypes\<close> below).
\<close>

datatype error =
  NothingToPop | IndexOutOfRange | NilDereference | NilMapAssignment | UnmappedLabelType

datatype LabelType = LABEL_DEF | LABEL_DEFCLASS | BLOCK | PROGRAM

record Label =
  Name :: string
  Type :: LabelType

text \<open>
  Modelled from the spec: the eight class objects that \<^verbatim>\<open>initConstants\<close> lists are
  package variables declared outside \<^verbatim>\<open>vm.go\<close>, and so is their method
  \<^verbatim>\<open>ReturnName\<close>. The spec (section 3) has them "bound into the constants map under
  their names" Integer, String, Boolean, Null, Array, Hash, Class, Object.
\<close>

datatype Class =
  IntegerClass | StringClass | BooleanClass | NullClass
  | ArrayClass | HashClass | ClassClass | ObjectClass

fun ReturnName :: "Class \<Rightarrow> string" where
  "ReturnName IntegerClass = ''Integer''"
| "ReturnName StringClass = ''String''"
| "ReturnName BooleanClass = ''Boolean''"
| "ReturnName NullClass = ''Null''"
| "ReturnName ArrayClass = ''Array''"
| "ReturnName HashClass = ''Hash''"
| "ReturnName ClassClass = ''Class''"
| "ReturnName ObjectClass = ''Object''"

text \<open>
  \<^verbatim>\<open>Pointer{Target: c}\<close>: a cell holding one object. The only objects \<^verbatim>\<open>vm.go\<close>
  builds are the built-in classes; every other kind of object is declared elsewhere and
  is the type parameter \<open>'a\<close>. A \<^verbatim>\<open>*Pointer\<close> is a \<open>'a Pointer option\<close>, \<open>None\<close> for nil
  (the spec, section 3: a Pointer has no identity beyond its Target).
\<close>

datatype 'a Object = ClassObject Class | OtherObject 'a

record 'a Pointer =
  Target :: "'a Object"

text \<open>
  The two fields of an instruction set that \<^verbatim>\<open>vm.go\<close> reads and writes. An
  instruction is the type parameter \<open>'i\<close>: its \<^verbatim>\<open>Action.Operation\<close> is a Go function
  over the VM, given to the evaluator below as a parameter.
\<close>

record 'i InstructionSet =
  Label :: "Label option"
  Instructions :: "'i list"

record CallFrame =
  InstructionSet :: "nat option"
  PC :: int

text \<open>
  The VM with the cells its pointers lead to. \<^verbatim>\<open>*InstructionSet\<close> and
  \<^verbatim>\<open>*CallFrame\<close> are references (\<open>nat option\<close>, \<open>None\<close> for nil) into the stores
  \<open>ISHeap\<close> and \<open>CFHeap\<close>, because \<^verbatim>\<open>setLabel\<close> writes \<^verbatim>\<open>is.Label\<close> and
  \<^verbatim>\<open>execInstruction\<close> writes \<^verbatim>\<open>cf.PC\<close> through them. \<open>Data\<close> is \<^verbatim>\<open>Stack.Data\<close>,
  \<open>CallFrames\<close> is \<^verbatim>\<open>CallFrameStack.CallFrames\<close>, the three index tables are their
  \<^verbatim>\<open>Data\<close> maps. The back pointers \<^verbatim>\<open>Stack.VM\<close> and \<^verbatim>\<open>CallFrameStack.VM\<close> lead to
  this same record. \<^verbatim>\<open>SP\<close>, \<^verbatim>\<open>CFP\<close>, \<^verbatim>\<open>PC\<close> and the cursors are Go \<^verbatim>\<open>int\<close>s (64 bit),
  modelled as \<open>int\<close>. A slice is shorter than \<open>2^63\<close>, so a \<^verbatim>\<open>+= 1\<close> on a value that is
  at most a slice length does not wrap around; \<^verbatim>\<open>cf.PC += 1\<close> runs on whatever an
  operation has left in \<^verbatim>\<open>PC\<close> and is written with its wrap-around (\<open>int64\<close> below).
\<close>

record ('i, 'a) VM =
  CallFrames :: "nat option list"
  Data :: "'a Pointer option list"
  SP :: int
  CFP :: int
  Constants :: "string \<rightharpoonup> 'a Pointer"
  LabelTable :: "LabelType \<rightharpoonup> (string \<rightharpoonup> nat option list)"
  MethodISTable :: "string \<rightharpoonup> int"
  ClassISTable :: "string \<rightharpoonup> int"
  BlockList :: "string \<rightharpoonup> int"
  ISHeap :: "nat \<rightharpoonup> 'i InstructionSet"
  CFHeap :: "nat \<rightharpoonup> CallFrame"

text \<open>Go's \<^verbatim>\<open>xs[i]\<close> on a slice: a panic outside the range.\<close>

definition index :: "'x list \<Rightarrow> int \<Rightarrow> error + 'x" where
  "index xs i = (if 0 \<le> i \<and> i < int (length xs) then Inr (xs ! nat i) else Inl IndexOutOfRange)"

section \<open>Construction\<close>

definition builtInClasses :: "Class list" where
  "builtInClasses =
     [IntegerClass, StringClass, BooleanClass, NullClass,
      ArrayClass, HashClass, ClassClass, ObjectClass]"

definition initConstants :: "string \<rightharpoonup> 'a Pointer" where
  "initConstants =
     foldl (\<lambda>constants c. constants(ReturnName c \<mapsto> \<lparr>Target = ClassObject c\<rparr>))
       Map.empty builtInClasses"

text \<open>
  \<^verbatim>\<open>New()\<close>. Its two arguments are the instruction sets and call frames that exist in
  the Go heap when the VM is made (the compiler allocates them, outside \<^verbatim>\<open>vm.go\<close>).
\<close>

definition New :: "(nat \<rightharpoonup> 'i InstructionSet) \<Rightarrow> (nat \<rightharpoonup> CallFrame) \<Rightarrow> ('i, 'a) VM" where
  "New iss cfs =
     \<lparr>CallFrames = [], Data = [], SP = 0, CFP = 0,
      Constants = initConstants,
      LabelTable = [LABEL_DEF \<mapsto> Map.empty, LABEL_DEFCLASS \<mapsto> Map.empty,
                    BLOCK \<mapsto> Map.empty, PROGRAM \<mapsto> Map.empty],
      MethodISTable = Map.empty, ClassISTable = Map.empty, BlockList = Map.empty,
      ISHeap = iss, CFHeap = cfs\<rparr>"

section \<open>The operand stack\<close>

definition push :: "'a Pointer option \<Rightarrow> ('i, 'a) VM \<Rightarrow> error + ('i, 'a) VM" where
  "push v vm =
     (if int (length (Data vm)) \<le> SP vm
      then Inr (vm\<lparr>Data := Data vm @ [v], SP := SP vm + 1\<rparr>)
      else if 0 \<le> SP vm
      then Inr (vm\<lparr>Data := (Data vm)[nat (SP vm) := v], SP := SP vm + 1\<rparr>)
      else Inl IndexOutOfRange)"

definition pop :: "('i, 'a) VM \<Rightarrow> error + ('a Pointer option \<times> ('i, 'a) VM)" where
  "pop vm =
     (if length (Data vm) < 1 then Inl NothingToPop
      else let sp = SP vm - 1 in
        (case index (Data vm) sp of
           Inl e \<Rightarrow> Inl e
         | Inr v \<Rightarrow> Inr (v, vm\<lparr>SP := sp, Data := (Data vm)[nat sp := None]\<rparr>)))"

definition Top :: "('i, 'a) VM \<Rightarrow> error + 'a Pointer option" where
  "Top vm = (if SP vm > 0 then index (Data vm) (SP vm - 1) else index (Data vm) 0)"

section \<open>The label table\<close>

text \<open>
  \<^verbatim>\<open>strings.Split(s, sep)\<close> of Go's standard library, for a separator of one byte (the
  code calls it with \<^verbatim>\<open>":"\<close> only): the pieces of \<open>s\<close> between the separators, in
  order, one more piece than there are separators.
\<close>

fun Split :: "string \<Rightarrow> char \<Rightarrow> string list" where
  "Split [] sep = [[]]"
| "Split (c # cs) sep =
     (if c = sep then [] # Split cs sep
      else (case Split cs sep of [] \<Rightarrow> [[c]] | w # ws \<Rightarrow> (c # w) # ws))"

text \<open>
  Modelled from the spec: the table \<^verbatim>\<open>labelTypes\<close> and the four \<^verbatim>\<open>LabelType\<close>
  constants are declared outside \<^verbatim>\<open>vm.go\<close>. The spec (sections 3, 4.5 and 6) has the
  kinds Def, DefClass, Block and Program and the label names \<^verbatim>\<open>Def:<name>\<close>,
  \<^verbatim>\<open>DefClass:<name>\<close> and \<^verbatim>\<open>Block:<id>\<close>. For any other prefix Go's map read gives the
  zero \<^verbatim>\<open>LabelType\<close>, which the spec does not name, so what \<^verbatim>\<open>setLabel\<close> stores
  then is not known from here: the model of \<^verbatim>\<open>setLabel\<close> ends such a call with
  \<open>UnmappedLabelType\<close>, after the nil checks of \<^verbatim>\<open>is.Label = l\<close>.
\<close>

definition labelTypes :: "string \<rightharpoonup> LabelType" where
  "labelTypes = [''Def'' \<mapsto> LABEL_DEF, ''DefClass'' \<mapsto> LABEL_DEFCLASS, ''Block'' \<mapsto> BLOCK]"

text \<open>
  The \<^verbatim>\<open>if\<close>/\<^verbatim>\<open>else\<close> of \<^verbatim>\<open>setLabel\<close>: \<^verbatim>\<open>(labelName, labelType)\<close> of a name, the
  type \<open>None\<close> for a prefix that \<^verbatim>\<open>labelTypes\<close> does not map.
\<close>

definition labelNameType :: "string \<Rightarrow> error + (string \<times> LabelType option)" where
  "labelNameType name =
     (if name = ''ProgramStart'' then Inr (name, Some PROGRAM)
      else (case index (Split name CHR '':'') 1 of
              Inl e \<Rightarrow> Inl e
            | Inr labelName \<Rightarrow>
                (case index (Split name CHR '':'') 0 of
                   Inl e \<Rightarrow> Inl e
                 | Inr prefix \<Rightarrow> Inr (labelName, labelTypes prefix))))"

text \<open>
  The read \<^verbatim>\<open>vm.LabelTable[t][name]\<close> with its \<^verbatim>\<open>ok\<close>: \<open>None\<close> when the key is
  absent (a read of a nil inner map finds nothing either).
\<close>

definition labelLookup :: "('i, 'a) VM \<Rightarrow> LabelType \<Rightarrow> string \<Rightarrow> nat option list option" where
  "labelLookup vm t name = (case LabelTable vm t of None \<Rightarrow> None | Some m \<Rightarrow> m name)"

text \<open>Go's read \<^verbatim>\<open>m[k]\<close> of a slice-valued or int-valued map: the zero value for an absent key.\<close>

definition sliceOf :: "'x list option \<Rightarrow> 'x list" where
  "sliceOf r = (case r of None \<Rightarrow> [] | Some xs \<Rightarrow> xs)"

definition ISIndex :: "(string \<rightharpoonup> int) \<Rightarrow> string \<Rightarrow> int" where
  "ISIndex tbl name = (case tbl name of None \<Rightarrow> 0 | Some k \<Rightarrow> k)"

definition setLabel :: "nat option \<Rightarrow> string \<Rightarrow> ('i, 'a) VM \<Rightarrow> error + ('i, 'a) VM" where
  "setLabel iset name vm =
     (case labelNameType name of
        Inl e \<Rightarrow> Inl e
      | Inr (labelName, mapped) \<Rightarrow>
          (case iset of
             None \<Rightarrow> Inl NilDereference
           | Some r \<Rightarrow>
               (case ISHeap vm r of
                  None \<Rightarrow> Inl NilDereference
                | Some s \<Rightarrow>
                    (case mapped of
                       None \<Rightarrow> Inl UnmappedLabelType
                     | Some labelType \<Rightarrow>
                         (case LabelTable vm labelType of
                            None \<Rightarrow> Inl NilMapAssignment
                          | Some m \<Rightarrow>
                              Inr (vm\<lparr>ISHeap := (ISHeap vm)
                                         (r \<mapsto> s\<lparr>Label := Some \<lparr>Name = name, Type = labelType\<rparr>\<rparr>),
                                       LabelTable := (LabelTable vm)
                                         (labelType \<mapsto>
                                            m(labelName \<mapsto> sliceOf (m labelName) @ [iset]))\<rparr>))))))"

definition getBlock ::
  "string \<Rightarrow> ('i, 'a) VM \<Rightarrow> error + ((nat option \<times> bool) \<times> ('i, 'a) VM)" where
  "getBlock name vm =
     (case labelLookup vm BLOCK name of
        None \<Rightarrow> Inr ((None, False), vm)
      | Some iss \<Rightarrow>
          (case index iss 0 of
             Inl e \<Rightarrow> Inl e
           | Inr iset \<Rightarrow> Inr ((iset, True), vm)))"

definition getMethodIS ::
  "string \<Rightarrow> ('i, 'a) VM \<Rightarrow> error + ((nat option \<times> bool) \<times> ('i, 'a) VM)" where
  "getMethodIS name vm =
     (case labelLookup vm LABEL_DEF name of
        None \<Rightarrow> Inr ((None, False), vm)
      | Some iss \<Rightarrow>
          (case index iss (ISIndex (MethodISTable vm) name) of
             Inl e \<Rightarrow> Inl e
           | Inr iset \<Rightarrow>
               Inr ((iset, True),
                    vm\<lparr>MethodISTable := (MethodISTable vm)
                         (name \<mapsto> ISIndex (MethodISTable vm) name + 1)\<rparr>)))"

definition getClassIS ::
  "string \<Rightarrow> ('i, 'a) VM \<Rightarrow> error + ((nat option \<times> bool) \<times> ('i, 'a) VM)" where
  "getClassIS name vm =
     (case labelLookup vm LABEL_DEFCLASS name of
        None \<Rightarrow> Inr ((None, False), vm)
      | Some iss \<Rightarrow>
          (case index iss (ISIndex (ClassISTable vm) name) of
             Inl e \<Rightarrow> Inl e
           | Inr iset \<Rightarrow>
               Inr ((iset, True),
                    vm\<lparr>ClassISTable := (ClassISTable vm)
                         (name \<mapsto> ISIndex (ClassISTable vm) name + 1)\<rparr>)))"

section \<open>The evaluator\<close>

text \<open>
  \<^verbatim>\<open>i.Action.Operation(vm, cf, i.Params...)\<close> is a Go function stored in the
  instruction; the opcodes are declared outside \<^verbatim>\<open>vm.go\<close>. The evaluator takes it as
  the parameter \<open>Operation\<close>: from the instruction, the frame reference and the VM to
  \<open>Some (Inr vm')\<close> when it returns, \<open>Some (Inl e)\<close> when it panics and \<open>None\<close> when it
  does not return.
\<close>

type_synonym ('i, 'a) operation =
  "'i \<Rightarrow> nat option \<Rightarrow> ('i, 'a) VM \<Rightarrow> (error + ('i, 'a) VM) option"

text \<open>
  What the loop head of \<^verbatim>\<open>EvalCallFrame\<close> reads through \<^verbatim>\<open>cf\<close>: \<^verbatim>\<open>cf.PC\<close> and
  \<^verbatim>\<open>cf.InstructionSet.Instructions\<close>.
\<close>

definition frameCode :: "('i, 'a) VM \<Rightarrow> nat option \<Rightarrow> error + (int \<times> 'i list)" where
  "frameCode vm cf =
     (case cf of
        None \<Rightarrow> Inl NilDereference
      | Some c \<Rightarrow>
          (case CFHeap vm c of
             None \<Rightarrow> Inl NilDereference
           | Some f \<Rightarrow>
               (case InstructionSet f of
                  None \<Rightarrow> Inl NilDereference
                | Some r \<Rightarrow>
                    (case ISHeap vm r of
                       None \<Rightarrow> Inl NilDereference
                     | Some s \<Rightarrow> Inr (PC f, Instructions s)))))"

text \<open>
  The value of a Go \<^verbatim>\<open>int\<close> expression on a 64-bit platform: the mathematical result
  wrapped into \<open>-2^63 .. 2^63 - 1\<close>.
\<close>

definition int64 :: "int \<Rightarrow> int" where
  "int64 x = (x + 2 ^ 63) mod 2 ^ 64 - 2 ^ 63"

definition execInstruction ::
  "('i, 'a) operation \<Rightarrow> nat option \<Rightarrow> 'i \<Rightarrow> ('i, 'a) VM \<Rightarrow> (error + ('i, 'a) VM) option" where
  "execInstruction Operation cf i vm =
     (case cf of
        None \<Rightarrow> Some (Inl NilDereference)
      | Some c \<Rightarrow>
          (case CFHeap vm c of
             None \<Rightarrow> Some (Inl NilDereference)
           | Some f \<Rightarrow> Operation i cf (vm\<lparr>CFHeap := (CFHeap vm)(c \<mapsto> f\<lparr>PC := int64 (PC f + 1)\<rparr>)\<rparr>)))"

partial_function (option) EvalCallFrame ::
  "('i, 'a) operation \<Rightarrow> nat option \<Rightarrow> ('i, 'a) VM \<Rightarrow> (error + ('i, 'a) VM) option" where
  "EvalCallFrame Operation cf vm =
     (case frameCode vm cf of
        Inl e \<Rightarrow> Some (Inl e)
      | Inr (pc, instrs) \<Rightarrow>
          if pc < int (length instrs) then
            (case index instrs pc of
               Inl e \<Rightarrow> Some (Inl e)
             | Inr i \<Rightarrow>
                 (case execInstruction Operation cf i vm of
                    None \<Rightarrow> None
                  | Some (Inl e) \<Rightarrow> Some (Inl e)
                  | Some (Inr vm') \<Rightarrow> EvalCallFrame Operation cf vm'))
          else Some (Inr vm))"

text \<open>
  \<^verbatim>\<open>Exec\<close> reads the frame to evaluate with \<^verbatim>\<open>vm.CallFrameStack.Top()\<close>, a method
  declared outside \<^verbatim>\<open>vm.go\<close>: it is the parameter \<open>frameTop\<close>, a read of the VM that
  gives a frame reference or panics.
\<close>

definition Exec ::
  "(('i, 'a) VM \<Rightarrow> error + nat option) \<Rightarrow> ('i, 'a) operation \<Rightarrow> ('i, 'a) VM
     \<Rightarrow> (error + ('i, 'a) VM) option" where
  "Exec frameTop Operation vm =
     (case frameTop vm of
        Inl e \<Rightarrow> Some (Inl e)
      | Inr cf \<Rightarrow> EvalCallFrame Operation cf vm)"

text \<open>
  Modelled from the spec: \<^verbatim>\<open>CallFrameStack.Top\<close> is declared outside \<^verbatim>\<open>vm.go\<close>. The
  spec (section 3): the call-frame stack is "indexed by CFP", and "SP indexes the next
  free slot; CFP the current top frame". So the top frame is \<^verbatim>\<open>CallFrames[CFP]\<close>, with
  Go's panic when the stack has no frame at that index.
\<close>

definition CallFrameStack_Top :: "('i, 'a) VM \<Rightarrow> error + nat option" where
  "CallFrameStack_Top vm = index (CallFrames vm) (CFP vm)"

section \<open>Runs of several calls\<close>

text \<open>
  The claims speak of sequences of calls; these functions make the calls one after the
  other and stop at the first panic.
\<close>

datatype 'a stackOp = Push "'a Pointer option" | Pop

fun stackStep :: "'a stackOp \<Rightarrow> ('i, 'a) VM \<Rightarrow> error + ('i, 'a) VM" where
  "stackStep (Push v) vm = push v vm"
| "stackStep Pop vm = (case pop vm of Inl e \<Rightarrow> Inl e | Inr (v, vm') \<Rightarrow> Inr vm')"

fun stackRun :: "'a stackOp list \<Rightarrow> ('i, 'a) VM \<Rightarrow> error + ('i, 'a) VM" where
  "stackRun [] vm = Inr vm"
| "stackRun (x # xs) vm =
     (case stackStep x vm of Inl e \<Rightarrow> Inl e | Inr vm' \<Rightarrow> stackRun xs vm')"

text \<open>\<^verbatim>\<open>setLabel(is, name)\<close> for each pair of the list, in order.\<close>

fun setLabels :: "(nat option \<times> string) list \<Rightarrow> ('i, 'a) VM \<Rightarrow> error + ('i, 'a) VM" where
  "setLabels [] vm = Inr vm"
| "setLabels ((iset, name) # regs) vm =
     (case setLabel iset name vm of Inl e \<Rightarrow> Inl e | Inr vm' \<Rightarrow> setLabels regs vm')"

text \<open>
  The instruction sets of a list of registrations whose name stands for the kind \<open>t\<close>
  and the key \<open>key\<close>, in registration order.
\<close>

definition registered :: "LabelType \<Rightarrow> string \<Rightarrow> (nat option \<times> string) list \<Rightarrow> nat option list" where
  "registered t key regs =
     map fst (filter (\<lambda>(iset, name). labelNameType name = Inr (key, Some t)) regs)"

text \<open>
  Registrations that can complete: each instruction set is a live reference and each
  name has a second piece and a prefix that \<^verbatim>\<open>labelTypes\<close> maps (or is
  \<^verbatim>\<open>"ProgramStart"\<close>).
\<close>

definition liveRegistrations :: "(nat option \<times> string) list \<Rightarrow> ('i, 'a) VM \<Rightarrow> bool" where
  "liveRegistrations regs vm =
     (\<forall>(iset, name) \<in> set regs.
        \<exists>r key t. iset = Some r \<and> r \<in> dom (ISHeap vm) \<and> labelNameType name = Inr (key, Some t))"

text \<open>
  Any interleaving of registrations and fetches: the calls of the list one after the
  other (the results of the fetches dropped), and the registrations among them.
\<close>

datatype registryOp =
  SetLabel "nat option" string | GetBlock string | GetMethodIS string | GetClassIS string

fun registryStep :: "registryOp \<Rightarrow> ('i, 'a) VM \<Rightarrow> error + ('i, 'a) VM" where
  "registryStep (SetLabel iset name) vm = setLabel iset name vm"
| "registryStep (GetBlock name) vm =
     (case getBlock name vm of Inl e \<Rightarrow> Inl e | Inr (r, vm') \<Rightarrow> Inr vm')"
| "registryStep (GetMethodIS name) vm =
     (case getMethodIS name vm of Inl e \<Rightarrow> Inl e | Inr (r, vm') \<Rightarrow> Inr vm')"
| "registryStep (GetClassIS name) vm =
     (case getClassIS name vm of Inl e \<Rightarrow> Inl e | Inr (r, vm') \<Rightarrow> Inr vm')"

fun registryRun :: "registryOp list \<Rightarrow> ('i, 'a) VM \<Rightarrow> error + ('i, 'a) VM" where
  "registryRun [] vm = Inr vm"
| "registryRun (x # xs) vm =
     (case registryStep x vm of Inl e \<Rightarrow> Inl e | Inr vm' \<Rightarrow> registryRun xs vm')"

fun registrations :: "registryOp list \<Rightarrow> (nat option \<times> string) list" where
  "registrations [] = []"
| "registrations (SetLabel iset name # ops) = (iset, name) # registrations ops"
| "registrations (x # ops) = registrations ops"

text \<open>\<open>k\<close> calls of \<^verbatim>\<open>getMethodIS(name)\<close> (of \<^verbatim>\<open>getClassIS(name)\<close>), with their results in order.\<close>

fun getMethodIS_calls ::
  "nat \<Rightarrow> string \<Rightarrow> ('i, 'a) VM \<Rightarrow> error + ((nat option \<times> bool) list \<times> ('i, 'a) VM)" where
  "getMethodIS_calls 0 name vm = Inr ([], vm)"
| "getMethodIS_calls (Suc k) name vm =
     (case getMethodIS name vm of
        Inl e \<Rightarrow> Inl e
      | Inr (r, vm') \<Rightarrow>
          (case getMethodIS_calls k name vm' of
             Inl e \<Rightarrow> Inl e
           | Inr (rs, vm'') \<Rightarrow> Inr (r # rs, vm'')))"

fun getClassIS_calls ::
  "nat \<Rightarrow> string \<Rightarrow> ('i, 'a) VM \<Rightarrow> error + ((nat option \<times> bool) list \<times> ('i, 'a) VM)" where
  "getClassIS_calls 0 name vm = Inr ([], vm)"
| "getClassIS_calls (Suc k) name vm =
     (case getClassIS name vm of
        Inl e \<Rightarrow> Inl e
      | Inr (r, vm') \<Rightarrow>
          (case getClassIS_calls k name vm' of
             Inl e \<Rightarrow> Inl e
           | Inr (rs, vm'') \<Rightarrow> Inr (r # rs, vm'')))"

text \<open>
  The spec's "program order", in its own words: every instruction of the list once, in
  list order, each through \<open>execInstruction\<close>; the run stops where an operation panics
  or does not return.
\<close>

fun runInOrder ::
  "('i, 'a) operation \<Rightarrow> nat option \<Rightarrow> 'i list \<Rightarrow> ('i, 'a) VM \<Rightarrow> (error + ('i, 'a) VM) option" where
  "runInOrder Operation cf [] vm = Some (Inr vm)"
| "runInOrder Operation cf (i # instrs) vm =
     (case execInstruction Operation cf i vm of
        None \<Rightarrow> None
      | Some (Inl e) \<Rightarrow> Some (Inl e)
      | Some (Inr vm') \<Rightarrow> runInOrder Operation cf instrs vm')"

text \<open>
  What \<open>frameCode\<close> reads once \<^verbatim>\<open>cf.PC += 1\<close> has run and nothing else has touched the
  frame.
\<close>

definition pcAdvanced :: "error + (int \<times> 'i list) \<Rightarrow> error + (int \<times> 'i list)" where
  "pcAdvanced code = (case code of Inl e \<Rightarrow> Inl e | Inr (pc, instrs) \<Rightarrow> Inr (int64 (pc + 1), instrs))"

text \<open>
  "No executed operation itself modifies the PC": along the run of the list from \<open>vm\<close>,
  every instruction that returns leaves the frame's \<^verbatim>\<open>PC\<close> where \<open>execInstruction\<close> put
  it and the frame's instructions as they were.
\<close>

fun opsKeepPC :: "('i, 'a) operation \<Rightarrow> nat option \<Rightarrow> 'i list \<Rightarrow> ('i, 'a) VM \<Rightarrow> bool" where
  "opsKeepPC Operation cf [] vm = True"
| "opsKeepPC Operation cf (i # instrs) vm =
     (case execInstruction Operation cf i vm of
        Some (Inr vm') \<Rightarrow>
          frameCode vm' cf = pcAdvanced (frameCode vm cf) \<and> opsKeepPC Operation cf instrs vm'
      | _ \<Rightarrow> True)"

text \<open>
  Modelled from the spec: the opcodes are declared outside \<^verbatim>\<open>vm.go\<close>. Two kinds of
  the spec's table (section 4.2) to run the evaluator on: a push of a Pointer on the
  operand stack (as \<^verbatim>\<open>push_int\<close>, \<^verbatim>\<open>push_string\<close>, ... do) and \<^verbatim>\<open>jump\<close>,
  "PC := offset".
\<close>

datatype 'a exampleInstr = PushPointer "'a Pointer option" | Jump int

definition exampleOperation :: "('a exampleInstr, 'a) operation" where
  "exampleOperation i cf vm =
     (case i of
        PushPointer v \<Rightarrow> Some (push v vm)
      | Jump offset \<Rightarrow>
          (case cf of
             None \<Rightarrow> Some (Inl NilDereference)
           | Some c \<Rightarrow>
               (case CFHeap vm c of
                  None \<Rightarrow> Some (Inl NilDereference)
                | Some f \<Rightarrow> Some (Inr (vm\<lparr>CFHeap := (CFHeap vm)(c \<mapsto> f\<lparr>PC := offset\<rparr>)\<rparr>)))))"

text \<open>
  The inner maps of the label table exist, as \<^verbatim>\<open>New\<close> makes them (and \<^verbatim>\<open>setLabel\<close>
  keeps them).
\<close>

definition tablesMade :: "('i, 'a) VM \<Rightarrow> bool" where
  "tablesMade vm = (\<forall>t. LabelTable vm t \<noteq> None)"

text \<open>
  From \<open>vm\<close> to \<open>vm'\<close> the instruction set \<open>r\<close> has got the label \<open>(name, t)\<close> and has
  been stored under kind \<open>t\<close> and key \<open>key\<close>, after what was there.
\<close>

definition storedUnder ::
  "('i, 'a) VM \<Rightarrow> ('i, 'a) VM \<Rightarrow> nat \<Rightarrow> string \<Rightarrow> LabelType \<Rightarrow> string \<Rightarrow> bool" where
  "storedUnder vm vm' r name t key =
     (map_option Label (ISHeap vm' r) = Some (Some \<lparr>Name = name, Type = t\<rparr>)
      \<and> labelLookup vm' t key = Some (sliceOf (labelLookup vm t key) @ [Some r]))"

section \<open>The operand stack: stack pointer and slots\<close>

lemma push_SP: "push v vm = Inr vm' \<Longrightarrow> SP vm' = SP vm + 1"
  by (auto simp: push_def split: if_splits)

lemma pop_SP: "pop vm = Inr (v, vm') \<Longrightarrow> SP vm' = SP vm - 1"
  by (auto simp: pop_def Let_def index_def split: if_splits sum.splits)

lemma push_inv:
  assumes "push v vm = Inr vm'" and "0 \<le> SP vm" and "SP vm \<le> int (length (Data vm))"
  shows "0 \<le> SP vm' \<and> SP vm' \<le> int (length (Data vm'))"
  using assms by (auto simp: push_def split: if_splits)

lemma pop_inv:
  assumes "pop vm = Inr (v, vm')"
  shows "0 \<le> SP vm' \<and> SP vm' \<le> int (length (Data vm'))"
  using assms by (auto simp: pop_def Let_def index_def split: if_splits sum.splits)

lemma stackStep_inv:
  assumes "stackStep x vm = Inr vm'" and "0 \<le> SP vm" and "SP vm \<le> int (length (Data vm))"
  shows "0 \<le> SP vm' \<and> SP vm' \<le> int (length (Data vm'))"
  using assms by (cases x) (auto dest: push_inv pop_inv split: sum.splits)

lemma stackRun_inv:
  assumes "stackRun xs vm = Inr vm'" and "0 \<le> SP vm" and "SP vm \<le> int (length (Data vm))"
  shows "0 \<le> SP vm' \<and> SP vm' \<le> int (length (Data vm'))"
  using assms
proof (induction xs arbitrary: vm)
  case Nil
  then show ?case by simp
next
  case (Cons x xs)
  then obtain vm1 where s: "stackStep x vm = Inr vm1" and r: "stackRun xs vm1 = Inr vm'"
    by (auto split: sum.splits)
  from stackStep_inv[OF s Cons.prems(2,3)] Cons.IH[OF r] show ?case by simp
qed

lemma stackRun_append:
  "stackRun (xs @ ys) vm = (case stackRun xs vm of Inl e \<Rightarrow> Inl e | Inr vm' \<Rightarrow> stackRun ys vm')"
  by (induction xs arbitrary: vm) (auto split: sum.splits)

lemma stackRun_take:
  assumes "stackRun xs vm = Inr vm'"
  shows "\<exists>vm1. stackRun (take k xs) vm = Inr vm1"
proof -
  have "stackRun (take k xs @ drop k xs) vm = Inr vm'" using assms by simp
  then show ?thesis unfolding stackRun_append by (auto split: sum.splits)
qed

text \<open>
  Claim C4. Popping from an empty operand stack is fatal: with \<^verbatim>\<open>SP = 0\<close> the call of
  \<^verbatim>\<open>pop\<close> panics and returns no Pointer, and no call of \<^verbatim>\<open>pop\<close> that returns leaves
  \<^verbatim>\<open>SP\<close> below 0. The panic is \<^verbatim>\<open>"Nothing to pop!"\<close> when \<^verbatim>\<open>Data\<close> is empty; when
  \<^verbatim>\<open>Data\<close> still has (cleared) slots, the guard \<^verbatim>\<open>len(s.Data) < 1\<close> lets the call
  through and the read \<^verbatim>\<open>s.Data[-1]\<close> panics.
\<close>

theorem C4_pop_on_empty_is_fatal:
  "(SP vm = 0 \<longrightarrow>
      pop vm = Inl (if length (Data vm) < 1 then NothingToPop else IndexOutOfRange))
   \<and> (pop s = Inr (v, s') \<longrightarrow> 0 \<le> SP s')"
  by (auto simp: pop_def Let_def index_def split: if_splits sum.splits)

theorem C4_pop_on_empty_is_fatal_witness:
  "SP (New Map.empty Map.empty :: (unit, unit) VM) = 0
   \<and> pop (New Map.empty Map.empty :: (unit, unit) VM) = Inl NothingToPop
   \<and> pop ((New Map.empty Map.empty :: (unit, unit) VM)\<lparr>Data := [None], SP := 1\<rparr>)
       = Inr (None, (New Map.empty Map.empty)\<lparr>Data := [None], SP := 0\<rparr>)
   \<and> (0::int) \<le> SP ((New Map.empty Map.empty :: (unit, unit) VM)\<lparr>Data := [None], SP := 0\<rparr>)"
  using C4_pop_on_empty_is_fatal
    [of "New Map.empty Map.empty :: (unit, unit) VM"
        "(New Map.empty Map.empty :: (unit, unit) VM)\<lparr>Data := [None], SP := 1\<rparr>"
        None "(New Map.empty Map.empty)\<lparr>Data := [None], SP := 0\<rparr>"]
  by (simp add: New_def pop_def index_def)

text \<open>
  Claim C5. Along every sequence of pushes and pops that all complete, from a fresh VM,
  \<^verbatim>\<open>0 <= SP <= len(Stack.Data)\<close> holds after each operation (after the first \<open>k\<close> of
  them, for every \<open>k\<close>); a push that completes adds exactly 1 to \<^verbatim>\<open>SP\<close> and a pop that
  completes takes exactly 1 from it.
\<close>

theorem C5_stack_pointer_invariant:
  assumes "stackRun ops (New iss cfs :: ('i, 'a) VM) = Inr vm" and "k \<le> length ops"
  shows "\<exists>vm_k. stackRun (take k ops) (New iss cfs :: ('i, 'a) VM) = Inr vm_k
           \<and> 0 \<le> SP vm_k \<and> SP vm_k \<le> int (length (Data vm_k))
           \<and> (\<forall>v s. push v vm_k = Inr s \<longrightarrow> SP s = SP vm_k + 1)
           \<and> (\<forall>v s. pop vm_k = Inr (v, s) \<longrightarrow> SP s = SP vm_k - 1)"
proof -
  obtain vm_k where r: "stackRun (take k ops) (New iss cfs :: ('i, 'a) VM) = Inr vm_k"
    using stackRun_take[OF assms(1)] by blast
  have "0 \<le> SP vm_k \<and> SP vm_k \<le> int (length (Data vm_k))"
    by (rule stackRun_inv[OF r]) (simp_all add: New_def)
  then show ?thesis using r push_SP pop_SP by blast
qed

theorem C5_stack_pointer_invariant_witness:
  "\<exists>vm_k. stackRun [Push (Some \<lparr>Target = ClassObject IntegerClass\<rparr>), Pop]
              (New Map.empty Map.empty :: (unit, unit) VM) = Inr vm_k
         \<and> 0 \<le> SP vm_k \<and> SP vm_k \<le> int (length (Data vm_k))"
proof -
  let ?ops = "[Push (Some \<lparr>Target = ClassObject IntegerClass\<rparr>), Pop, Push None]"
  have "\<exists>vm. stackRun ?ops (New Map.empty Map.empty :: (unit, unit) VM) = Inr vm"
    by (simp add: New_def push_def pop_def index_def)
  then obtain vm where run: "stackRun ?ops (New Map.empty Map.empty :: (unit, unit) VM) = Inr vm"
    by blast
  have k: "2 \<le> length ?ops" by simp
  have t: "take 2 ?ops = [Push (Some \<lparr>Target = ClassObject IntegerClass\<rparr>), Pop]"
    by (simp add: numeral_2_eq_2)
  from C5_stack_pointer_invariant[OF run k] show ?thesis unfolding t by blast
qed

text \<open>
  Claim C9. From every stack state with \<^verbatim>\<open>0 <= SP <= len(Data)\<close> (the states that
  completed pushes and pops reach, by C5) and every Pointer \<open>v\<close>: \<^verbatim>\<open>push(v)\<close> completes,
  the \<^verbatim>\<open>pop\<close> right after it completes and returns \<open>v\<close>, \<^verbatim>\<open>SP\<close> is what it was before
  the push, and the slot \<^verbatim>\<open>Data[SP]\<close> holds nil.
\<close>

theorem C9_push_then_pop:
  assumes "0 \<le> SP vm" and "SP vm \<le> int (length (Data vm))"
  shows "\<exists>vm1 vm2. push v vm = Inr vm1 \<and> pop vm1 = Inr (v, vm2)
           \<and> SP vm2 = SP vm \<and> index (Data vm2) (SP vm2) = Inr None"
  using assms by (auto simp: push_def pop_def Let_def index_def nth_append)

theorem C9_push_then_pop_witness:
  "\<exists>vm1 vm2. push (Some \<lparr>Target = ClassObject StringClass\<rparr>)
                 (New Map.empty Map.empty :: (unit, unit) VM) = Inr vm1
         \<and> pop vm1 = Inr (Some \<lparr>Target = ClassObject StringClass\<rparr>, vm2)
         \<and> SP vm2 = 0 \<and> index (Data vm2) (SP vm2) = Inr None"
  using C9_push_then_pop
    [of "New Map.empty Map.empty :: (unit, unit) VM" "Some \<lparr>Target = ClassObject StringClass\<rparr>"]
  by (simp add: New_def)

text \<open>
  Claim C10. \<^verbatim>\<open>Top\<close> returns \<^verbatim>\<open>Data[SP-1]\<close> when \<^verbatim>\<open>SP > 0\<close> (the Pointer in that slot
  when the slot exists, that is when \<^verbatim>\<open>SP <= len(Data)\<close>; right after a push it is the
  Pointer pushed). With \<^verbatim>\<open>SP = 0\<close> it reports no underflow and returns \<^verbatim>\<open>Data[0]\<close>:
  whatever that slot holds when \<^verbatim>\<open>Data\<close> has a slot, and on a fresh VM, whose
  \<^verbatim>\<open>Data\<close> is empty, the index-out-of-range panic.
\<close>

theorem C10_Top:
  "(0 < SP a \<longrightarrow> Top a = index (Data a) (SP a - 1))
   \<and> (0 < SP a \<and> SP a \<le> int (length (Data a)) \<longrightarrow> Top a = Inr (Data a ! nat (SP a - 1)))
   \<and> (0 \<le> SP c \<and> SP c \<le> int (length (Data c)) \<and> push v c = Inr a \<longrightarrow> Top a = Inr v)
   \<and> (SP b = 0 \<longrightarrow> Top b = index (Data b) 0)
   \<and> (SP b = 0 \<and> Data b \<noteq> [] \<longrightarrow> Top b = Inr (Data b ! 0))
   \<and> Top (New iss cfs) = Inl IndexOutOfRange"
  by (auto simp: Top_def index_def push_def New_def nth_append split: if_splits)

theorem C10_Top_witness:
  "push (Some \<lparr>Target = ClassObject ArrayClass\<rparr>) (New Map.empty Map.empty :: (unit, unit) VM)
     = Inr ((New Map.empty Map.empty)\<lparr>Data := [Some \<lparr>Target = ClassObject ArrayClass\<rparr>], SP := 1\<rparr>)
   \<and> Top ((New Map.empty Map.empty :: (unit, unit) VM)
            \<lparr>Data := [Some \<lparr>Target = ClassObject ArrayClass\<rparr>], SP := 1\<rparr>)
       = Inr (Some \<lparr>Target = ClassObject ArrayClass\<rparr>)
   \<and> Top ((New Map.empty Map.empty :: (unit, unit) VM)\<lparr>Data := [None], SP := 0\<rparr>) = Inr None
   \<and> Top (New Map.empty Map.empty :: (unit, unit) VM) = Inl IndexOutOfRange"
  using C10_Top
    [of "(New Map.empty Map.empty :: (unit, unit) VM)
           \<lparr>Data := [Some \<lparr>Target = ClassObject ArrayClass\<rparr>], SP := 1\<rparr>"
        "New Map.empty Map.empty :: (unit, unit) VM"
        "Some \<lparr>Target = ClassObject ArrayClass\<rparr>"
        "(New Map.empty Map.empty :: (unit, unit) VM)\<lparr>Data := [None], SP := 0\<rparr>"
        Map.empty Map.empty]
  by (simp add: New_def push_def index_def)

section \<open>The constants of a new VM\<close>

lemma initConstants_ReturnName:
  "initConstants (ReturnName c) = Some \<lparr>Target = ClassObject c\<rparr>"
  by (cases c) (simp_all add: initConstants_def builtInClasses_def)

lemma dom_initConstants:
  "dom initConstants =
     {''Integer'', ''String'', ''Boolean'', ''Null'', ''Array'', ''Hash'', ''Class'', ''Object''}"
  by (auto simp add: initConstants_def builtInClasses_def)

text \<open>
  Claim C6. After \<^verbatim>\<open>New()\<close> the constants map binds the name of each of the eight
  built-in classes (its \<^verbatim>\<open>ReturnName\<close>) to a Pointer whose Target is that class, and
  it has no other entry.
\<close>

theorem C6_constants_of_New:
  "(\<forall>c. Constants (New iss cfs :: ('i, 'a) VM) (ReturnName c) = Some \<lparr>Target = ClassObject c\<rparr>)
   \<and> set builtInClasses = UNIV
   \<and> dom (Constants (New iss cfs :: ('i, 'a) VM)) =
       {''Integer'', ''String'', ''Boolean'', ''Null'', ''Array'', ''Hash'', ''Class'', ''Object''}"
proof -
  have "c \<in> set builtInClasses" for c
    by (cases c) (simp_all add: builtInClasses_def)
  then have "set builtInClasses = UNIV" by blast
  then show ?thesis
    by (simp add: New_def initConstants_ReturnName dom_initConstants)
qed

section \<open>The label table: registration and fetch\<close>

lemma Split_no_sep: "sep \<notin> set s \<Longrightarrow> Split s sep = [s]"
  by (induction s) auto

lemma Split_prefix: "sep \<notin> set p \<Longrightarrow> sep \<notin> set n \<Longrightarrow> Split (p @ sep # n) sep = [p, n]"
  by (induction p) (auto simp: Split_no_sep)

lemma labelNameType_ProgramStart:
  "labelNameType ''ProgramStart'' = Inr (''ProgramStart'', Some PROGRAM)"
  by (simp add: labelNameType_def)

lemma labelNameType_Def:
  assumes "CHR '':'' \<notin> set n"
  shows "labelNameType (''Def:'' @ n) = Inr (n, Some LABEL_DEF)"
proof -
  have "Split (''Def'' @ CHR '':'' # n) CHR '':'' = [''Def'', n]"
    by (rule Split_prefix) (use assms in simp_all)
  then show ?thesis by (simp add: labelNameType_def index_def labelTypes_def)
qed

lemma labelNameType_DefClass:
  assumes "CHR '':'' \<notin> set n"
  shows "labelNameType (''DefClass:'' @ n) = Inr (n, Some LABEL_DEFCLASS)"
proof -
  have "Split (''DefClass'' @ CHR '':'' # n) CHR '':'' = [''DefClass'', n]"
    by (rule Split_prefix) (use assms in simp_all)
  then show ?thesis by (simp add: labelNameType_def index_def labelTypes_def)
qed

lemma labelNameType_Block:
  assumes "CHR '':'' \<notin> set n"
  shows "labelNameType (''Block:'' @ n) = Inr (n, Some BLOCK)"
proof -
  have "Split (''Block'' @ CHR '':'' # n) CHR '':'' = [''Block'', n]"
    by (rule Split_prefix) (use assms in simp_all)
  then show ?thesis by (simp add: labelNameType_def index_def labelTypes_def)
qed

lemma setLabel_Inr:
  assumes "labelNameType name = Inr (key, Some t)" and "ISHeap vm r = Some s"
    and "LabelTable vm t = Some m"
  shows "setLabel (Some r) name vm =
     Inr (vm\<lparr>ISHeap := (ISHeap vm)(r \<mapsto> s\<lparr>Label := Some \<lparr>Name = name, Type = t\<rparr>\<rparr>),
             LabelTable := (LabelTable vm)(t \<mapsto> m(key \<mapsto> sliceOf (m key) @ [Some r]))\<rparr>)"
  using assms by (simp add: setLabel_def)

lemma setLabel_InrD:
  assumes "setLabel iset name vm = Inr vm'"
  shows "\<exists>key t r s m. labelNameType name = Inr (key, Some t) \<and> iset = Some r
           \<and> ISHeap vm r = Some s \<and> LabelTable vm t = Some m
           \<and> vm' = vm\<lparr>ISHeap := (ISHeap vm)(r \<mapsto> s\<lparr>Label := Some \<lparr>Name = name, Type = t\<rparr>\<rparr>),
                       LabelTable := (LabelTable vm)(t \<mapsto> m(key \<mapsto> sliceOf (m key) @ [Some r]))\<rparr>"
  using assms by (auto simp: setLabel_def split: sum.splits option.splits prod.splits)

lemma setLabel_stored:
  assumes "labelNameType name = Inr (key, Some t)" and "ISHeap vm r = Some s" and "tablesMade vm"
  shows "\<exists>vm'. setLabel (Some r) name vm = Inr vm' \<and> storedUnder vm vm' r name t key"
proof -
  from assms(3) obtain m where m: "LabelTable vm t = Some m"
    by (auto simp: tablesMade_def)
  show ?thesis
    unfolding setLabel_Inr[OF assms(1,2) m]
    by (simp add: storedUnder_def labelLookup_def m)
qed

lemma setLabel_lookup:
  assumes "setLabel iset name vm = Inr vm'"
  shows "labelLookup vm' t key =
     (if labelNameType name = Inr (key, Some t) then Some (sliceOf (labelLookup vm t key) @ [iset])
      else labelLookup vm t key)"
proof -
  from setLabel_InrD[OF assms] obtain key' t' r s m where
    *: "labelNameType name = Inr (key', Some t')" "iset = Some r" "LabelTable vm t' = Some m"
    and vm': "vm' = vm\<lparr>ISHeap := (ISHeap vm)(r \<mapsto> s\<lparr>Label := Some \<lparr>Name = name, Type = t'\<rparr>\<rparr>),
                       LabelTable := (LabelTable vm)(t' \<mapsto> m(key' \<mapsto> sliceOf (m key') @ [Some r]))\<rparr>"
    by blast
  show ?thesis using * by (auto simp: vm' labelLookup_def)
qed

lemma setLabel_keeps:
  assumes "setLabel iset name vm = Inr vm'"
  shows "MethodISTable vm' = MethodISTable vm" and "ClassISTable vm' = ClassISTable vm"
    and "dom (ISHeap vm') = dom (ISHeap vm)" and "tablesMade vm \<Longrightarrow> tablesMade vm'"
  using setLabel_InrD[OF assms] by (auto simp: tablesMade_def split: if_splits)

lemma registered_Cons:
  "registered t key ((iset, name) # regs) =
     (if labelNameType name = Inr (key, Some t) then iset # registered t key regs
      else registered t key regs)"
  by (simp add: registered_def)

lemma setLabels_lookup:
  assumes "setLabels regs vm = Inr vm'"
  shows "labelLookup vm' t key =
     (if registered t key regs = [] then labelLookup vm t key
      else Some (sliceOf (labelLookup vm t key) @ registered t key regs))"
  using assms
proof (induction regs arbitrary: vm)
  case Nil
  then show ?case by (simp add: registered_def)
next
  case (Cons p regs)
  obtain iset name where p: "p = (iset, name)" by (cases p)
  from Cons.prems obtain vm1 where s: "setLabel iset name vm = Inr vm1"
    and r: "setLabels regs vm1 = Inr vm'"
    by (auto simp: p split: sum.splits)
  show ?case
    unfolding p registered_Cons Cons.IH[OF r] setLabel_lookup[OF s]
    by (simp add: sliceOf_def)
qed

lemma setLabels_keeps:
  assumes "setLabels regs vm = Inr vm'"
  shows "MethodISTable vm' = MethodISTable vm \<and> ClassISTable vm' = ClassISTable vm"
  using assms
proof (induction regs arbitrary: vm)
  case Nil
  then show ?case by simp
next
  case (Cons p regs)
  obtain iset name where p: "p = (iset, name)" by (cases p)
  from Cons.prems obtain vm1 where s: "setLabel iset name vm = Inr vm1"
    and r: "setLabels regs vm1 = Inr vm'"
    by (auto simp: p split: sum.splits)
  show ?case using Cons.IH[OF r] setLabel_keeps(1,2)[OF s] by simp
qed

lemma labelLookup_New: "labelLookup (New iss cfs) t key = None"
  by (cases t) (simp_all add: labelLookup_def New_def)

lemma tablesMade_New: "tablesMade (New iss cfs)"
  unfolding tablesMade_def
proof
  fix t
  show "LabelTable (New iss cfs) t \<noteq> None" by (cases t) (simp_all add: New_def)
qed

lemma setLabels_succeed:
  assumes "\<forall>(iset, name) \<in> set regs.
             \<exists>r key t. iset = Some r \<and> r \<in> dom (ISHeap vm) \<and> labelNameType name = Inr (key, Some t)"
    and "tablesMade vm"
  shows "\<exists>vm'. setLabels regs vm = Inr vm'"
  using assms
proof (induction regs arbitrary: vm)
  case Nil
  then show ?case by simp
next
  case (Cons p regs)
  obtain iset name where p: "p = (iset, name)" by (cases p)
  from Cons.prems(1) obtain r key t s where
    h: "iset = Some r" "ISHeap vm r = Some s" "labelNameType name = Inr (key, Some t)"
    by (auto simp: p)
  from setLabel_stored[OF h(3,2) Cons.prems(2)] obtain vm1 where
    s: "setLabel iset name vm = Inr vm1" by (auto simp: h(1))
  have "\<exists>vm'. setLabels regs vm1 = Inr vm'"
  proof (rule Cons.IH)
    show "tablesMade vm1" using setLabel_keeps(4)[OF s Cons.prems(2)] .
    show "\<forall>(iset, name)\<in>set regs.
            \<exists>r key t. iset = Some r \<and> r \<in> dom (ISHeap vm1) \<and> labelNameType name = Inr (key, Some t)"
      using Cons.prems(1) setLabel_keeps(3)[OF s] by (auto simp: p)
  qed
  then show ?case by (simp add: p s)
qed

lemma registered_same:
  assumes "labelNameType name = Inr (key, Some t)"
  shows "registered t key (map (\<lambda>r. (Some r, name)) rs) = map Some rs"
  using assms by (induction rs) (simp_all add: registered_def)

lemma register_same_name:
  assumes "labelNameType name = Inr (key, Some t)" and "set rs \<subseteq> dom iss"
  shows "\<exists>vm. setLabels (map (\<lambda>r. (Some r, name)) rs) (New iss cfs :: ('i, 'a) VM) = Inr vm
           \<and> labelLookup vm t key = (if rs = [] then None else Some (map Some rs))
           \<and> MethodISTable vm = Map.empty \<and> ClassISTable vm = Map.empty"
proof -
  let ?regs = "map (\<lambda>r. (Some r, name)) rs"
  have "\<forall>(iset, nm) \<in> set ?regs.
          \<exists>r key t. iset = Some r \<and> r \<in> dom (ISHeap (New iss cfs :: ('i, 'a) VM))
            \<and> labelNameType nm = Inr (key, Some t)"
    using assms by (auto simp: New_def)
  from setLabels_succeed[OF this tablesMade_New] obtain vm :: "('i, 'a) VM" where
    vm: "setLabels ?regs (New iss cfs) = Inr vm" by blast
  have "labelLookup vm t key = (if rs = [] then None else Some (map Some rs))"
    unfolding setLabels_lookup[OF vm] registered_same[OF assms(1)] labelLookup_New
    by (simp add: sliceOf_def)
  moreover have "MethodISTable vm = Map.empty \<and> ClassISTable vm = Map.empty"
    using setLabels_keeps[OF vm] by (simp add: New_def)
  ultimately show ?thesis using vm by blast
qed

lemma getMethodIS_calls_state:
  assumes "labelLookup vm LABEL_DEF n = Some l" and "0 \<le> ISIndex (MethodISTable vm) n"
    and "nat (ISIndex (MethodISTable vm) n) + k \<le> length l"
  shows "getMethodIS_calls k n vm =
     Inr (map (\<lambda>x. (x, True)) (take k (drop (nat (ISIndex (MethodISTable vm) n)) l)),
          if k = 0 then vm
          else vm\<lparr>MethodISTable := (MethodISTable vm)(n \<mapsto> ISIndex (MethodISTable vm) n + int k)\<rparr>)"
  using assms
proof (induction k arbitrary: vm)
  case 0
  then show ?case by simp
next
  case (Suc k)
  define c where "c = ISIndex (MethodISTable vm) n"
  define vm1 where "vm1 = vm\<lparr>MethodISTable := (MethodISTable vm)(n \<mapsto> c + 1)\<rparr>"
  have c: "0 \<le> c" "nat c < length l" using Suc.prems by (auto simp: c_def)
  have g: "getMethodIS n vm = Inr ((l ! nat c, True), vm1)"
    using c Suc.prems(1) by (simp add: getMethodIS_def index_def c_def vm1_def)
  have l1: "labelLookup vm1 LABEL_DEF n = Some l"
    using Suc.prems(1) by (simp add: vm1_def labelLookup_def)
  have c1: "ISIndex (MethodISTable vm1) n = c + 1" by (simp add: vm1_def ISIndex_def)
  have "getMethodIS_calls k n vm1 =
     Inr (map (\<lambda>x. (x, True)) (take k (drop (nat (ISIndex (MethodISTable vm1) n)) l)),
          if k = 0 then vm1
          else vm1\<lparr>MethodISTable := (MethodISTable vm1)(n \<mapsto> ISIndex (MethodISTable vm1) n + int k)\<rparr>)"
    by (rule Suc.IH[OF l1]) (use c Suc.prems in \<open>auto simp: c1 c_def\<close>)
  then have r: "getMethodIS_calls k n vm1 =
     Inr (map (\<lambda>x. (x, True)) (take k (drop (nat (c + 1)) l)),
          vm\<lparr>MethodISTable := (MethodISTable vm)(n \<mapsto> c + 1 + int k)\<rparr>)"
    by (simp add: c1) (simp add: vm1_def)
  have d: "drop (nat c) l = l ! nat c # drop (nat (c + 1)) l"
    using c by (simp add: Cons_nth_drop_Suc nat_add_distrib)
  have a: "c + 1 + int k = c + int (Suc k)" by simp
  show ?case
    using g r d unfolding a by (simp add: c_def[symmetric])
qed

lemma getClassIS_calls_state:
  assumes "labelLookup vm LABEL_DEFCLASS n = Some l" and "0 \<le> ISIndex (ClassISTable vm) n"
    and "nat (ISIndex (ClassISTable vm) n) + k \<le> length l"
  shows "getClassIS_calls k n vm =
     Inr (map (\<lambda>x. (x, True)) (take k (drop (nat (ISIndex (ClassISTable vm) n)) l)),
          if k = 0 then vm
          else vm\<lparr>ClassISTable := (ClassISTable vm)(n \<mapsto> ISIndex (ClassISTable vm) n + int k)\<rparr>)"
  using assms
proof (induction k arbitrary: vm)
  case 0
  then show ?case by simp
next
  case (Suc k)
  define c where "c = ISIndex (ClassISTable vm) n"
  define vm1 where "vm1 = vm\<lparr>ClassISTable := (ClassISTable vm)(n \<mapsto> c + 1)\<rparr>"
  have c: "0 \<le> c" "nat c < length l" using Suc.prems by (auto simp: c_def)
  have g: "getClassIS n vm = Inr ((l ! nat c, True), vm1)"
    using c Suc.prems(1) by (simp add: getClassIS_def index_def c_def vm1_def)
  have l1: "labelLookup vm1 LABEL_DEFCLASS n = Some l"
    using Suc.prems(1) by (simp add: vm1_def labelLookup_def)
  have c1: "ISIndex (ClassISTable vm1) n = c + 1" by (simp add: vm1_def ISIndex_def)
  have "getClassIS_calls k n vm1 =
     Inr (map (\<lambda>x. (x, True)) (take k (drop (nat (ISIndex (ClassISTable vm1) n)) l)),
          if k = 0 then vm1
          else vm1\<lparr>ClassISTable := (ClassISTable vm1)(n \<mapsto> ISIndex (ClassISTable vm1) n + int k)\<rparr>)"
    by (rule Suc.IH[OF l1]) (use c Suc.prems in \<open>auto simp: c1 c_def\<close>)
  then have r: "getClassIS_calls k n vm1 =
     Inr (map (\<lambda>x. (x, True)) (take k (drop (nat (c + 1)) l)),
          vm\<lparr>ClassISTable := (ClassISTable vm)(n \<mapsto> c + 1 + int k)\<rparr>)"
    by (simp add: c1) (simp add: vm1_def)
  have d: "drop (nat c) l = l ! nat c # drop (nat (c + 1)) l"
    using c by (simp add: Cons_nth_drop_Suc nat_add_distrib)
  have a: "c + 1 + int k = c + int (Suc k)" by simp
  show ?case
    using g r d unfolding a by (simp add: c_def[symmetric])
qed

lemma fetch_methods_in_order:
  assumes "CHR '':'' \<notin> set n" and "set rs \<subseteq> dom iss" and "k \<le> length rs"
  shows "\<exists>vm vm_k.
           setLabels (map (\<lambda>r. (Some r, ''Def:'' @ n)) rs) (New iss cfs :: ('i, 'a) VM) = Inr vm
         \<and> labelLookup vm LABEL_DEF n = (if rs = [] then None else Some (map Some rs))
         \<and> getMethodIS_calls k n vm = Inr (map (\<lambda>r. (Some r, True)) (take k rs), vm_k)
         \<and> ISIndex (MethodISTable vm_k) n = int k"
proof -
  from register_same_name[OF labelNameType_Def[OF assms(1)] assms(2)]
  obtain vm :: "('i, 'a) VM" where
    vm: "setLabels (map (\<lambda>r. (Some r, ''Def:'' @ n)) rs) (New iss cfs) = Inr vm"
    and l: "labelLookup vm LABEL_DEF n = (if rs = [] then None else Some (map Some rs))"
    and c: "MethodISTable vm = Map.empty" by blast
  have "\<exists>vm_k. getMethodIS_calls k n vm = Inr (map (\<lambda>r. (Some r, True)) (take k rs), vm_k)
            \<and> ISIndex (MethodISTable vm_k) n = int k"
  proof (cases "rs = []")
    case True
    then show ?thesis using assms(3) c by (simp add: ISIndex_def)
  next
    case False
    then have l': "labelLookup vm LABEL_DEF n = Some (map Some rs)" using l by simp
    have c0: "ISIndex (MethodISTable vm) n = 0" by (simp add: c ISIndex_def)
    from getMethodIS_calls_state[OF l', of k] assms(3)
    have "getMethodIS_calls k n vm =
            Inr (map (\<lambda>x. (x, True)) (take k (map Some rs)),
                 if k = 0 then vm else vm\<lparr>MethodISTable := (MethodISTable vm)(n \<mapsto> int k)\<rparr>)"
      by (simp add: c0)
    then show ?thesis
      by (cases "k = 0") (simp_all add: take_map o_def ISIndex_def c)
  qed
  then show ?thesis using vm l by blast
qed

lemma fetch_classes_in_order:
  assumes "CHR '':'' \<notin> set n" and "set rs \<subseteq> dom iss" and "k \<le> length rs"
  shows "\<exists>vm vm_k.
           setLabels (map (\<lambda>r. (Some r, ''DefClass:'' @ n)) rs) (New iss cfs :: ('i, 'a) VM) = Inr vm
         \<and> labelLookup vm LABEL_DEFCLASS n = (if rs = [] then None else Some (map Some rs))
         \<and> getClassIS_calls k n vm = Inr (map (\<lambda>r. (Some r, True)) (take k rs), vm_k)
         \<and> ISIndex (ClassISTable vm_k) n = int k"
proof -
  from register_same_name[OF labelNameType_DefClass[OF assms(1)] assms(2)]
  obtain vm :: "('i, 'a) VM" where
    vm: "setLabels (map (\<lambda>r. (Some r, ''DefClass:'' @ n)) rs) (New iss cfs) = Inr vm"
    and l: "labelLookup vm LABEL_DEFCLASS n = (if rs = [] then None else Some (map Some rs))"
    and c: "ClassISTable vm = Map.empty" by blast
  have "\<exists>vm_k. getClassIS_calls k n vm = Inr (map (\<lambda>r. (Some r, True)) (take k rs), vm_k)
            \<and> ISIndex (ClassISTable vm_k) n = int k"
  proof (cases "rs = []")
    case True
    then show ?thesis using assms(3) c by (simp add: ISIndex_def)
  next
    case False
    then have l': "labelLookup vm LABEL_DEFCLASS n = Some (map Some rs)" using l by simp
    have c0: "ISIndex (ClassISTable vm) n = 0" by (simp add: c ISIndex_def)
    from getClassIS_calls_state[OF l', of k] assms(3)
    have "getClassIS_calls k n vm =
            Inr (map (\<lambda>x. (x, True)) (take k (map Some rs)),
                 if k = 0 then vm else vm\<lparr>ClassISTable := (ClassISTable vm)(n \<mapsto> int k)\<rparr>)"
      by (simp add: c0)
    then show ?thesis
      by (cases "k = 0") (simp_all add: take_map o_def ISIndex_def c)
  qed
  then show ?thesis using vm l by blast
qed

lemma setLabels_stored:
  assumes "setLabels regs vm = Inr vm1"
    and "sliceOf (labelLookup vm t key) @ registered t key regs \<noteq> []"
  shows "labelLookup vm1 t key = Some (sliceOf (labelLookup vm t key) @ registered t key regs)"
  using assms(2) unfolding setLabels_lookup[OF assms(1)]
  by (cases "labelLookup vm t key") (simp_all add: sliceOf_def)

lemma fetch_methods_any_state:
  assumes "setLabels regs w = Inr w1" and "0 \<le> ISIndex (MethodISTable w) m"
    and "nat (ISIndex (MethodISTable w) m) + j
           \<le> length (sliceOf (labelLookup w LABEL_DEF m) @ registered LABEL_DEF m regs)"
  shows "getMethodIS_calls j m w1 =
     Inr (map (\<lambda>x. (x, True))
            (take j (drop (nat (ISIndex (MethodISTable w) m))
               (sliceOf (labelLookup w LABEL_DEF m) @ registered LABEL_DEF m regs))),
          if j = 0 then w1
          else w1\<lparr>MethodISTable := (MethodISTable w1)(m \<mapsto> ISIndex (MethodISTable w) m + int j)\<rparr>)"
proof (cases "j = 0")
  case True
  then show ?thesis by simp
next
  case False
  with assms(3) have "sliceOf (labelLookup w LABEL_DEF m) @ registered LABEL_DEF m regs \<noteq> []"
    by auto
  from setLabels_stored[OF assms(1) this]
  have l: "labelLookup w1 LABEL_DEF m =
             Some (sliceOf (labelLookup w LABEL_DEF m) @ registered LABEL_DEF m regs)" .
  have c: "MethodISTable w1 = MethodISTable w" using setLabels_keeps[OF assms(1)] by simp
  from getMethodIS_calls_state[OF l, of j] assms(2,3) show ?thesis by (simp add: c)
qed

lemma fetch_classes_any_state:
  assumes "setLabels regs w = Inr w1" and "0 \<le> ISIndex (ClassISTable w) m"
    and "nat (ISIndex (ClassISTable w) m) + j
           \<le> length (sliceOf (labelLookup w LABEL_DEFCLASS m) @ registered LABEL_DEFCLASS m regs)"
  shows "getClassIS_calls j m w1 =
     Inr (map (\<lambda>x. (x, True))
            (take j (drop (nat (ISIndex (ClassISTable w) m))
               (sliceOf (labelLookup w LABEL_DEFCLASS m) @ registered LABEL_DEFCLASS m regs))),
          if j = 0 then w1
          else w1\<lparr>ClassISTable := (ClassISTable w1)(m \<mapsto> ISIndex (ClassISTable w) m + int j)\<rparr>)"
proof (cases "j = 0")
  case True
  then show ?thesis by simp
next
  case False
  with assms(3)
  have "sliceOf (labelLookup w LABEL_DEFCLASS m) @ registered LABEL_DEFCLASS m regs \<noteq> []"
    by auto
  from setLabels_stored[OF assms(1) this]
  have l: "labelLookup w1 LABEL_DEFCLASS m =
             Some (sliceOf (labelLookup w LABEL_DEFCLASS m) @ registered LABEL_DEFCLASS m regs)" .
  have c: "ClassISTable w1 = ClassISTable w" using setLabels_keeps[OF assms(1)] by simp
  from getClassIS_calls_state[OF l, of j] assms(2,3) show ?thesis by (simp add: c)
qed

text \<open>
  Claim C1. On a fresh VM, for a name \<open>n\<close> with no \<^verbatim>\<open>':'\<close> and instruction sets
  \<open>rs = [is_1, ..., is_m]\<close> (live references) registered in that order by \<^verbatim>\<open>setLabel\<close>
  under \<^verbatim>\<open>"Def:" + n\<close>: all registrations complete, the table holds them under
  \<open>(LABEL_DEF, n)\<close> in registration order (registration appends), and for every
  \<open>k \<le> m\<close> the first \<open>k\<close> calls of \<^verbatim>\<open>getMethodIS(n)\<close> return
  \<open>(is_1, true), ..., (is_k, true)\<close> and leave the fetch cursor of \<open>n\<close> at \<open>k\<close>: each
  call advances it by exactly one. The same for \<^verbatim>\<open>"DefClass:" + n\<close> and
  \<^verbatim>\<open>getClassIS\<close>.

  The same holds in every VM state \<open>w\<close> and among registrations under any names:
  registrations of live instruction sets complete; and after registrations \<open>regs\<close>
  (under whatever names) on \<open>w\<close>, with \<open>L\<close> the instruction sets that \<open>w\<close> held under
  \<open>(LABEL_DEF, m)\<close> followed by those that \<open>regs\<close> registers under it, in order, and \<open>c\<close>
  the cursor of \<open>m\<close> in \<open>w\<close>, the next \<open>j\<close> calls of \<^verbatim>\<open>getMethodIS(m)\<close> return the
  entries \<open>c, ..., c + j - 1\<close> of \<open>L\<close> with \<^verbatim>\<open>true\<close>, and change nothing in the VM but
  the cursor of \<open>m\<close>, which ends at \<open>c + j\<close>: the cursors of other names, the class
  cursors and the label table stay as they were. The same for the class table. A fetch
  of a name under which nothing is stored returns \<^verbatim>\<open>(nil, false)\<close> and changes nothing;
  a fetch with the cursor beyond what is stored panics on the index.
\<close>

theorem C1_fetch_in_registration_order:
  "(CHR '':'' \<notin> set n \<and> set rs \<subseteq> dom iss \<and> k \<le> length rs \<longrightarrow>
      (\<exists>vm vm_k.
          setLabels (map (\<lambda>r. (Some r, ''Def:'' @ n)) rs) (New iss cfs :: ('i, 'a) VM) = Inr vm
        \<and> labelLookup vm LABEL_DEF n = (if rs = [] then None else Some (map Some rs))
        \<and> getMethodIS_calls k n vm = Inr (map (\<lambda>r. (Some r, True)) (take k rs), vm_k)
        \<and> ISIndex (MethodISTable vm_k) n = int k)
    \<and> (\<exists>vm vm_k.
          setLabels (map (\<lambda>r. (Some r, ''DefClass:'' @ n)) rs) (New iss cfs :: ('i, 'a) VM) = Inr vm
        \<and> labelLookup vm LABEL_DEFCLASS n = (if rs = [] then None else Some (map Some rs))
        \<and> getClassIS_calls k n vm = Inr (map (\<lambda>r. (Some r, True)) (take k rs), vm_k)
        \<and> ISIndex (ClassISTable vm_k) n = int k))
   \<and> (liveRegistrations regs (w :: ('i, 'a) VM) \<and> tablesMade w \<longrightarrow>
        (\<exists>w1. setLabels regs w = Inr w1))
   \<and> (setLabels regs w = Inr w1 \<and> 0 \<le> ISIndex (MethodISTable w) m
        \<and> nat (ISIndex (MethodISTable w) m) + j
             \<le> length (sliceOf (labelLookup w LABEL_DEF m) @ registered LABEL_DEF m regs) \<longrightarrow>
        getMethodIS_calls j m w1 =
          Inr (map (\<lambda>x. (x, True))
                 (take j (drop (nat (ISIndex (MethodISTable w) m))
                    (sliceOf (labelLookup w LABEL_DEF m) @ registered LABEL_DEF m regs))),
               if j = 0 then w1
               else w1\<lparr>MethodISTable :=
                         (MethodISTable w1)(m \<mapsto> ISIndex (MethodISTable w) m + int j)\<rparr>))
   \<and> (setLabels regs w = Inr w1 \<and> 0 \<le> ISIndex (ClassISTable w) m
        \<and> nat (ISIndex (ClassISTable w) m) + j
             \<le> length (sliceOf (labelLookup w LABEL_DEFCLASS m)
                         @ registered LABEL_DEFCLASS m regs) \<longrightarrow>
        getClassIS_calls j m w1 =
          Inr (map (\<lambda>x. (x, True))
                 (take j (drop (nat (ISIndex (ClassISTable w) m))
                    (sliceOf (labelLookup w LABEL_DEFCLASS m)
                       @ registered LABEL_DEFCLASS m regs))),
               if j = 0 then w1
               else w1\<lparr>ClassISTable :=
                         (ClassISTable w1)(m \<mapsto> ISIndex (ClassISTable w) m + int j)\<rparr>))
   \<and> (labelLookup w LABEL_DEF m = None \<longrightarrow> getMethodIS m w = Inr ((None, False), w))
   \<and> (labelLookup w LABEL_DEFCLASS m = None \<longrightarrow> getClassIS m w = Inr ((None, False), w))
   \<and> (labelLookup w LABEL_DEF m = Some l
        \<and> \<not> (0 \<le> ISIndex (MethodISTable w) m \<and> ISIndex (MethodISTable w) m < int (length l)) \<longrightarrow>
        getMethodIS m w = Inl IndexOutOfRange)
   \<and> (labelLookup w LABEL_DEFCLASS m = Some l
        \<and> \<not> (0 \<le> ISIndex (ClassISTable w) m \<and> ISIndex (ClassISTable w) m < int (length l)) \<longrightarrow>
        getClassIS m w = Inl IndexOutOfRange)"
proof -
  have a: "(\<exists>vm vm_k.
          setLabels (map (\<lambda>r. (Some r, ''Def:'' @ n)) rs) (New iss cfs :: ('i, 'a) VM) = Inr vm
        \<and> labelLookup vm LABEL_DEF n = (if rs = [] then None else Some (map Some rs))
        \<and> getMethodIS_calls k n vm = Inr (map (\<lambda>r. (Some r, True)) (take k rs), vm_k)
        \<and> ISIndex (MethodISTable vm_k) n = int k)
    \<and> (\<exists>vm vm_k.
          setLabels (map (\<lambda>r. (Some r, ''DefClass:'' @ n)) rs) (New iss cfs :: ('i, 'a) VM) = Inr vm
        \<and> labelLookup vm LABEL_DEFCLASS n = (if rs = [] then None else Some (map Some rs))
        \<and> getClassIS_calls k n vm = Inr (map (\<lambda>r. (Some r, True)) (take k rs), vm_k)
        \<and> ISIndex (ClassISTable vm_k) n = int k)"
    if "CHR '':'' \<notin> set n \<and> set rs \<subseteq> dom iss \<and> k \<le> length rs"
    using that fetch_methods_in_order[of n rs iss k cfs] fetch_classes_in_order[of n rs iss k cfs]
    by blast
  have b: "\<exists>w1. setLabels regs w = Inr w1" if "liveRegistrations regs w \<and> tablesMade w"
    using that setLabels_succeed[of regs w] by (simp add: liveRegistrations_def)
  have c: "getMethodIS m w = Inr ((None, False), w)" if "labelLookup w LABEL_DEF m = None"
    using that by (simp add: getMethodIS_def)
  have d: "getClassIS m w = Inr ((None, False), w)" if "labelLookup w LABEL_DEFCLASS m = None"
    using that by (simp add: getClassIS_def)
  have e: "getMethodIS m w = Inl IndexOutOfRange"
    if "labelLookup w LABEL_DEF m = Some l
        \<and> \<not> (0 \<le> ISIndex (MethodISTable w) m \<and> ISIndex (MethodISTable w) m < int (length l))"
    using that by (simp add: getMethodIS_def index_def)
  have f: "getClassIS m w = Inl IndexOutOfRange"
    if "labelLookup w LABEL_DEFCLASS m = Some l
        \<and> \<not> (0 \<le> ISIndex (ClassISTable w) m \<and> ISIndex (ClassISTable w) m < int (length l))"
    using that by (simp add: getClassIS_def index_def)
  note g = fetch_methods_any_state[of regs w w1 m j]
  note h = fetch_classes_any_state[of regs w w1 m j]
  show ?thesis
  proof (intro conjI)
    show "CHR '':'' \<notin> set n \<and> set rs \<subseteq> dom iss \<and> k \<le> length rs \<longrightarrow>
      (\<exists>vm vm_k.
          setLabels (map (\<lambda>r. (Some r, ''Def:'' @ n)) rs) (New iss cfs :: ('i, 'a) VM) = Inr vm
        \<and> labelLookup vm LABEL_DEF n = (if rs = [] then None else Some (map Some rs))
        \<and> getMethodIS_calls k n vm = Inr (map (\<lambda>r. (Some r, True)) (take k rs), vm_k)
        \<and> ISIndex (MethodISTable vm_k) n = int k)
    \<and> (\<exists>vm vm_k.
          setLabels (map (\<lambda>r. (Some r, ''DefClass:'' @ n)) rs) (New iss cfs :: ('i, 'a) VM) = Inr vm
        \<and> labelLookup vm LABEL_DEFCLASS n = (if rs = [] then None else Some (map Some rs))
        \<and> getClassIS_calls k n vm = Inr (map (\<lambda>r. (Some r, True)) (take k rs), vm_k)
        \<and> ISIndex (ClassISTable vm_k) n = int k)"
      using a by (rule impI)
  qed (use b c d e f g h in \<open>blast+\<close>)
qed

theorem C1_fetch_in_registration_order_witness:
  "\<exists>vm vm2 vm3.
      setLabels [(Some 0, ''Def:foo''), (Some 3, ''Def:bar''), (Some 2, ''Def:foo'')]
        (New [0 \<mapsto> \<lparr>Label = None, Instructions = []\<rparr>, 3 \<mapsto> \<lparr>Label = None, Instructions = []\<rparr>,
              2 \<mapsto> \<lparr>Label = None, Instructions = []\<rparr>]
           Map.empty :: (unit, unit) VM) = Inr vm
    \<and> getMethodIS_calls 2 ''foo'' vm = Inr ([(Some 0, True), (Some 2, True)], vm2)
    \<and> ISIndex (MethodISTable vm2) ''foo'' = 2 \<and> ISIndex (MethodISTable vm2) ''bar'' = 0
    \<and> getMethodIS_calls 1 ''bar'' vm2 = Inr ([(Some 3, True)], vm3)
    \<and> ISIndex (MethodISTable vm3) ''foo'' = 2 \<and> ISIndex (MethodISTable vm3) ''bar'' = 1
    \<and> (\<exists>vc vc2.
          setLabels [(Some 0, ''DefClass:Foo''), (Some 2, ''DefClass:Foo'')]
            (New [0 \<mapsto> \<lparr>Label = None, Instructions = []\<rparr>, 3 \<mapsto> \<lparr>Label = None, Instructions = []\<rparr>,
                  2 \<mapsto> \<lparr>Label = None, Instructions = []\<rparr>]
               Map.empty :: (unit, unit) VM) = Inr vc
        \<and> getClassIS_calls 2 ''Foo'' vc = Inr ([(Some 0, True), (Some 2, True)], vc2)
        \<and> ISIndex (ClassISTable vc2) ''Foo'' = 2)"
proof -
  let ?regs = "[(Some 0, ''Def:foo''), (Some 3, ''Def:bar''), (Some 2, ''Def:foo'')]"
  let ?new = "New [0 \<mapsto> \<lparr>Label = None, Instructions = []\<rparr>, 3 \<mapsto> \<lparr>Label = None, Instructions = []\<rparr>,
              2 \<mapsto> \<lparr>Label = None, Instructions = []\<rparr>]
           Map.empty :: (unit, unit) VM"
  note th = C1_fetch_in_registration_order
  have live: "liveRegistrations ?regs ?new"
    by (simp add: liveRegistrations_def New_def labelNameType_def index_def labelTypes_def)
  from th[THEN conjunct2, THEN conjunct1, THEN mp, OF conjI[OF live tablesMade_New]]
  obtain vm where s: "setLabels ?regs ?new = Inr vm" by blast
  have rf: "registered LABEL_DEF ''foo'' ?regs = [Some 0, Some 2]"
    by (simp add: registered_def labelNameType_def index_def labelTypes_def)
  have rb: "registered LABEL_DEF ''bar'' ?regs = [Some 3]"
    by (simp add: registered_def labelNameType_def index_def labelTypes_def)
  have c0: "ISIndex (MethodISTable ?new) x = 0" for x
    by (simp add: New_def ISIndex_def)
  have tm: "MethodISTable vm = Map.empty" using setLabels_keeps[OF s] by (simp add: New_def)
  let ?vm2 = "vm\<lparr>MethodISTable := (MethodISTable vm)(''foo'' \<mapsto> 2)\<rparr>"
  let ?Lf = "sliceOf (labelLookup ?new LABEL_DEF ''foo'') @ registered LABEL_DEF ''foo'' ?regs"
  have pf: "0 \<le> ISIndex (MethodISTable ?new) ''foo''"
    "nat (ISIndex (MethodISTable ?new) ''foo'') + 2 \<le> length ?Lf"
    unfolding c0 rf labelLookup_New by (simp_all add: sliceOf_def)
  have "getMethodIS_calls 2 ''foo'' vm =
          Inr (map (\<lambda>x. (x, True)) (take 2 (drop (nat (ISIndex (MethodISTable ?new) ''foo'')) ?Lf)),
               if (2::nat) = 0 then vm
               else vm\<lparr>MethodISTable :=
                        (MethodISTable vm)(''foo'' \<mapsto> ISIndex (MethodISTable ?new) ''foo'' + int 2)\<rparr>)"
    by (rule th[THEN conjunct2, THEN conjunct2, THEN conjunct1, THEN mp,
          OF conjI[OF s conjI[OF pf]]])
  then have f: "getMethodIS_calls 2 ''foo'' vm = Inr ([(Some 0, True), (Some 2, True)], ?vm2)"
    unfolding c0 rf labelLookup_New by (simp add: sliceOf_def)
  have s2: "setLabels [] ?vm2 = Inr ?vm2" by simp
  have l2: "labelLookup vm LABEL_DEF ''bar'' = Some [Some 3]"
    unfolding setLabels_lookup[OF s] rb labelLookup_New by (simp add: sliceOf_def)
  let ?vm3 = "?vm2\<lparr>MethodISTable := (MethodISTable ?vm2)(''bar'' \<mapsto> 1)\<rparr>"
  have l2': "labelLookup ?vm2 LABEL_DEF ''bar'' = Some [Some 3]"
    using l2 by (simp add: labelLookup_def)
  have cb: "ISIndex (MethodISTable ?vm2) ''bar'' = 0" by (simp add: tm ISIndex_def)
  let ?Lb = "sliceOf (labelLookup ?vm2 LABEL_DEF ''bar'') @ registered LABEL_DEF ''bar'' []"
  have pb: "0 \<le> ISIndex (MethodISTable ?vm2) ''bar''"
    "nat (ISIndex (MethodISTable ?vm2) ''bar'') + 1 \<le> length ?Lb"
    unfolding cb l2' by (simp_all add: sliceOf_def registered_def)
  have "getMethodIS_calls 1 ''bar'' ?vm2 =
          Inr (map (\<lambda>x. (x, True)) (take 1 (drop (nat (ISIndex (MethodISTable ?vm2) ''bar'')) ?Lb)),
               if (1::nat) = 0 then ?vm2
               else ?vm2\<lparr>MethodISTable :=
                        (MethodISTable ?vm2)(''bar'' \<mapsto> ISIndex (MethodISTable ?vm2) ''bar'' + int 1)\<rparr>)"
    by (rule th[THEN conjunct2, THEN conjunct2, THEN conjunct1, THEN mp,
          OF conjI[OF s2 conjI[OF pb]]])
  then have b: "getMethodIS_calls 1 ''bar'' ?vm2 = Inr ([(Some 3, True)], ?vm3)"
    unfolding cb l2' by (simp add: sliceOf_def registered_def)
  have "ISIndex (MethodISTable ?vm2) ''foo'' = 2 \<and> ISIndex (MethodISTable ?vm2) ''bar'' = 0
      \<and> ISIndex (MethodISTable ?vm3) ''foo'' = 2 \<and> ISIndex (MethodISTable ?vm3) ''bar'' = 1"
    by (simp add: tm ISIndex_def)
  with s f b have part1: "\<exists>vm vm2 vm3.
      setLabels ?regs ?new = Inr vm
    \<and> getMethodIS_calls 2 ''foo'' vm = Inr ([(Some 0, True), (Some 2, True)], vm2)
    \<and> ISIndex (MethodISTable vm2) ''foo'' = 2 \<and> ISIndex (MethodISTable vm2) ''bar'' = 0
    \<and> getMethodIS_calls 1 ''bar'' vm2 = Inr ([(Some 3, True)], vm3)
    \<and> ISIndex (MethodISTable vm3) ''foo'' = 2 \<and> ISIndex (MethodISTable vm3) ''bar'' = 1"
    by blast
  let ?iss = "[0 \<mapsto> \<lparr>Label = None, Instructions = []\<rparr>, 3 \<mapsto> \<lparr>Label = None, Instructions = []\<rparr>,
              2 \<mapsto> \<lparr>Label = None, Instructions = []\<rparr>] :: nat \<rightharpoonup> unit InstructionSet"
  have h: "CHR '':'' \<notin> set ''Foo'' \<and> set [0, 2] \<subseteq> dom ?iss \<and> 2 \<le> length [0::nat, 2]"
    by simp
  have e: "map (\<lambda>r. (Some r, ''DefClass:'' @ ''Foo'')) [0, 2]
             = [(Some 0, ''DefClass:Foo''), (Some 2, ''DefClass:Foo'')]" by simp
  have t: "map (\<lambda>r. (Some r, True)) (take 2 [0::nat, 2]) = [(Some 0, True), (Some 2, True)]"
    by simp
  have "\<exists>vc vc2.
          setLabels (map (\<lambda>r. (Some r, ''DefClass:'' @ ''Foo'')) [0, 2])
            (New ?iss Map.empty :: (unit, unit) VM) = Inr vc
        \<and> getClassIS_calls 2 ''Foo'' vc
            = Inr (map (\<lambda>r. (Some r, True)) (take 2 [0, 2]), vc2)
        \<and> ISIndex (ClassISTable vc2) ''Foo'' = int 2"
    using th[THEN conjunct1, THEN mp, OF h, THEN conjunct2, of Map.empty] by blast
  then have part2: "\<exists>vc vc2.
          setLabels [(Some 0, ''DefClass:Foo''), (Some 2, ''DefClass:Foo'')]
            (New ?iss Map.empty :: (unit, unit) VM) = Inr vc
        \<and> getClassIS_calls 2 ''Foo'' vc = Inr ([(Some 0, True), (Some 2, True)], vc2)
        \<and> ISIndex (ClassISTable vc2) ''Foo'' = 2"
    unfolding e t by simp
  from part1 part2 show ?thesis by blast
qed

text \<open>
  Claim C7. \<^verbatim>\<open>setLabel(is, name)\<close> on a live instruction set sets \<^verbatim>\<open>is.Label\<close> and
  appends \<^verbatim>\<open>is\<close> in the label table: under kind Program and key \<^verbatim>\<open>"ProgramStart"\<close> for
  the name \<^verbatim>\<open>"ProgramStart"\<close>, and for a name \<^verbatim>\<open>K:n\<close> with \<open>K\<close> one of Def, DefClass,
  Block and no \<^verbatim>\<open>':'\<close> in \<open>n\<close>, under the kind of \<open>K\<close> and the key \<open>n\<close>.
\<close>

theorem C7_setLabel_stores_under_kind_and_key:
  assumes "ISHeap vm r = Some s" and "tablesMade vm" and "CHR '':'' \<notin> set n"
  shows "(\<exists>vm'. setLabel (Some r) ''ProgramStart'' vm = Inr vm'
            \<and> storedUnder vm vm' r ''ProgramStart'' PROGRAM ''ProgramStart'')
       \<and> (\<exists>vm'. setLabel (Some r) (''Def:'' @ n) vm = Inr vm'
            \<and> storedUnder vm vm' r (''Def:'' @ n) LABEL_DEF n)
       \<and> (\<exists>vm'. setLabel (Some r) (''DefClass:'' @ n) vm = Inr vm'
            \<and> storedUnder vm vm' r (''DefClass:'' @ n) LABEL_DEFCLASS n)
       \<and> (\<exists>vm'. setLabel (Some r) (''Block:'' @ n) vm = Inr vm'
            \<and> storedUnder vm vm' r (''Block:'' @ n) BLOCK n)"
  using setLabel_stored[OF labelNameType_ProgramStart assms(1,2)]
    setLabel_stored[OF labelNameType_Def[OF assms(3)] assms(1,2)]
    setLabel_stored[OF labelNameType_DefClass[OF assms(3)] assms(1,2)]
    setLabel_stored[OF labelNameType_Block[OF assms(3)] assms(1,2)]
  by blast

theorem C7_setLabel_stores_under_kind_and_key_witness:
  "\<exists>vm'. setLabel (Some 0) ''Block:7''
            (New [0 \<mapsto> \<lparr>Label = None, Instructions = []\<rparr>] Map.empty :: (unit, unit) VM) = Inr vm'
        \<and> map_option Label (ISHeap vm' 0) = Some (Some \<lparr>Name = ''Block:7'', Type = BLOCK\<rparr>)
        \<and> labelLookup vm' BLOCK ''7'' = Some [Some 0]"
proof -
  let ?vm = "New [0 \<mapsto> \<lparr>Label = None, Instructions = []\<rparr>] Map.empty :: (unit, unit) VM"
  have h: "ISHeap ?vm 0 = Some \<lparr>Label = None, Instructions = []\<rparr>" by (simp add: New_def)
  have n: "CHR '':'' \<notin> set ''7''" by simp
  from C7_setLabel_stores_under_kind_and_key[OF h tablesMade_New n]
  have "\<exists>vm'. setLabel (Some 0) (''Block:'' @ ''7'') ?vm = Inr vm'
            \<and> storedUnder ?vm vm' 0 (''Block:'' @ ''7'') BLOCK ''7''"
    by blast
  then show ?thesis by (simp add: storedUnder_def labelLookup_New sliceOf_def)
qed

lemma getBlock_keeps:
  assumes "getBlock name vm = Inr (r, vm')"
  shows "vm' = vm"
  using assms by (auto simp: getBlock_def split: option.splits sum.splits)

lemma getMethodIS_lookup:
  assumes "getMethodIS name vm = Inr (r, vm')"
  shows "labelLookup vm' t key = labelLookup vm t key"
  using assms by (auto simp: getMethodIS_def labelLookup_def split: option.splits sum.splits)

lemma getClassIS_lookup:
  assumes "getClassIS name vm = Inr (r, vm')"
  shows "labelLookup vm' t key = labelLookup vm t key"
  using assms by (auto simp: getClassIS_def labelLookup_def split: option.splits sum.splits)

lemma registryStep_lookup:
  assumes "registryStep x vm = Inr vm'"
  shows "labelLookup vm' t key =
     (if registered t key (registrations [x]) = [] then labelLookup vm t key
      else Some (sliceOf (labelLookup vm t key) @ registered t key (registrations [x])))"
proof (cases x)
  case (SetLabel iset name)
  with assms have "setLabel iset name vm = Inr vm'" by simp
  from setLabel_lookup[OF this] show ?thesis by (simp add: SetLabel registered_def)
next
  case (GetBlock name)
  with assms show ?thesis
    by (auto simp: registered_def split: sum.splits dest: getBlock_keeps)
next
  case (GetMethodIS name)
  with assms show ?thesis
    by (auto simp: registered_def split: sum.splits dest: getMethodIS_lookup)
next
  case (GetClassIS name)
  with assms show ?thesis
    by (auto simp: registered_def split: sum.splits dest: getClassIS_lookup)
qed

lemma registrations_Cons: "registrations (x # ops) = registrations [x] @ registrations ops"
  by (cases x) simp_all

lemma registered_append:
  "registered t key (xs @ ys) = registered t key xs @ registered t key ys"
  by (simp add: registered_def)

lemma registryRun_lookup:
  assumes "registryRun ops vm = Inr vm'"
  shows "labelLookup vm' t key =
     (if registered t key (registrations ops) = [] then labelLookup vm t key
      else Some (sliceOf (labelLookup vm t key) @ registered t key (registrations ops)))"
  using assms
proof (induction ops arbitrary: vm)
  case Nil
  then show ?case by (simp add: registered_def)
next
  case (Cons x ops)
  from Cons.prems obtain vm1 where s: "registryStep x vm = Inr vm1"
    and r: "registryRun ops vm1 = Inr vm'"
    by (auto split: sum.splits)
  show ?case
    unfolding registrations_Cons[of x ops] registered_append Cons.IH[OF r]
      registryStep_lookup[OF s]
    by (simp add: sliceOf_def)
qed

lemma getBlock_first:
  assumes "labelLookup vm BLOCK name \<noteq> Some []"
  shows "getBlock name vm =
     Inr ((case sliceOf (labelLookup vm BLOCK name) of
             [] \<Rightarrow> (None, False)
           | iset # _ \<Rightarrow> (iset, True)), vm)"
  using assms
  by (cases "labelLookup vm BLOCK name")
    (auto simp: getBlock_def sliceOf_def index_def split: list.splits)

text \<open>
  Claim C8. In every VM state that any interleaving \<open>ops\<close> of registrations and fetches
  (\<^verbatim>\<open>getBlock\<close>, \<^verbatim>\<open>getMethodIS\<close>, \<^verbatim>\<open>getClassIS\<close>, any names, any number of times) has
  made from any VM \<open>vm0\<close>, \<^verbatim>\<open>getBlock(name)\<close> returns \<^verbatim>\<open>(is, true)\<close> with \<^verbatim>\<open>is\<close> the first
  of the instruction sets that \<open>vm0\<close> held under kind Block and that name followed by
  those that \<open>ops\<close> registers under them, however many there are, and \<^verbatim>\<open>(nil, false)\<close>
  when there is none; it writes nothing: the VM after the call is the VM before it,
  cursors included. (The one state left out holds an empty slice under the name, which
  no call of \<^verbatim>\<open>setLabel\<close> stores.) A fresh VM holds nothing under any name, so from a
  fresh VM \<^verbatim>\<open>is\<close> is the first instruction set registered under (Block, name).
\<close>

theorem C8_getBlock_first_registered:
  "(registryRun ops vm0 = Inr vm \<and> labelLookup vm0 BLOCK name \<noteq> Some [] \<longrightarrow>
      getBlock name vm =
        Inr ((case sliceOf (labelLookup vm0 BLOCK name) @ registered BLOCK name (registrations ops) of
                [] \<Rightarrow> (None, False)
              | iset # _ \<Rightarrow> (iset, True)), vm))
   \<and> (setLabels regs (New iss cfs) = Inr vm1 \<longrightarrow>
        getBlock name vm1 =
          Inr ((case registered BLOCK name regs of
                  [] \<Rightarrow> (None, False)
                | iset # _ \<Rightarrow> (iset, True)), vm1))
   \<and> labelLookup (New iss cfs :: ('i, 'a) VM) BLOCK name = None"
proof -
  have a: "getBlock name vm =
        Inr ((case sliceOf (labelLookup vm0 BLOCK name) @ registered BLOCK name (registrations ops) of
                [] \<Rightarrow> (None, False)
              | iset # _ \<Rightarrow> (iset, True)), vm)"
    if h: "registryRun ops vm0 = Inr vm \<and> labelLookup vm0 BLOCK name \<noteq> Some []"
  proof -
    from h have run: "registryRun ops vm0 = Inr vm"
      and ne: "labelLookup vm0 BLOCK name \<noteq> Some []" by simp_all
    have l: "labelLookup vm BLOCK name \<noteq> Some []"
      unfolding registryRun_lookup[OF run] using ne by simp
    have "sliceOf (labelLookup vm BLOCK name) =
            sliceOf (labelLookup vm0 BLOCK name) @ registered BLOCK name (registrations ops)"
      unfolding registryRun_lookup[OF run] by (simp add: sliceOf_def)
    with getBlock_first[OF l] show ?thesis by simp
  qed
  have b: "getBlock name vm1 =
          Inr ((case registered BLOCK name regs of
                  [] \<Rightarrow> (None, False)
                | iset # _ \<Rightarrow> (iset, True)), vm1)"
    if run: "setLabels regs (New iss cfs) = Inr vm1"
    unfolding getBlock_def setLabels_lookup[OF run] labelLookup_New
    by (simp add: index_def sliceOf_def split: list.splits)
  from a b show ?thesis by (simp add: labelLookup_New)
qed

theorem C8_getBlock_first_registered_witness:
  "\<exists>vm. registryRun
           [SetLabel (Some 0) ''Block:7'', GetMethodIS ''f'', SetLabel (Some 2) ''Block:7'',
            SetLabel (Some 2) ''Def:f'', GetMethodIS ''f'', GetBlock ''7'']
           (New [0 \<mapsto> \<lparr>Label = None, Instructions = []\<rparr>, 2 \<mapsto> \<lparr>Label = None, Instructions = []\<rparr>]
              Map.empty :: (unit, unit) VM) = Inr vm
       \<and> ISIndex (MethodISTable vm) ''f'' = 1
       \<and> getBlock ''7'' vm = Inr ((Some 0, True), vm)
       \<and> getBlock ''8'' vm = Inr ((None, False), vm)
       \<and> (\<exists>vm1. setLabels [(Some 2, ''Block:7''), (Some 0, ''Block:7'')]
                  (New [0 \<mapsto> \<lparr>Label = None, Instructions = []\<rparr>,
                        2 \<mapsto> \<lparr>Label = None, Instructions = []\<rparr>]
                     Map.empty :: (unit, unit) VM) = Inr vm1
              \<and> getBlock ''7'' vm1 = Inr ((Some 2, True), vm1))"
proof -
  let ?ops = "[SetLabel (Some 0) ''Block:7'', GetMethodIS ''f'', SetLabel (Some 2) ''Block:7'',
            SetLabel (Some 2) ''Def:f'', GetMethodIS ''f'', GetBlock ''7'']"
  let ?vm0 = "New [0 \<mapsto> \<lparr>Label = None, Instructions = []\<rparr>, 2 \<mapsto> \<lparr>Label = None, Instructions = []\<rparr>]
                Map.empty :: (unit, unit) VM"
  have "\<exists>vm. registryRun ?ops ?vm0 = Inr vm \<and> ISIndex (MethodISTable vm) ''f'' = 1"
    by (simp add: setLabel_def labelNameType_def index_def labelTypes_def New_def
        getMethodIS_def getBlock_def labelLookup_def sliceOf_def ISIndex_def)
  then obtain vm where run: "registryRun ?ops ?vm0 = Inr vm"
    and c: "ISIndex (MethodISTable vm) ''f'' = 1" by blast
  have n: "labelLookup ?vm0 BLOCK x \<noteq> Some []" for x
    unfolding labelLookup_New by simp
  have r1: "registered BLOCK ''7'' (registrations ?ops) = [Some 0, Some 2]"
    by (simp add: registered_def labelNameType_def index_def labelTypes_def)
  have r2: "registered BLOCK ''8'' (registrations ?ops) = []"
    by (simp add: registered_def labelNameType_def index_def labelTypes_def)
  note th = C8_getBlock_first_registered
  have "getBlock ''7'' vm =
        Inr ((case sliceOf (labelLookup ?vm0 BLOCK ''7'') @ registered BLOCK ''7'' (registrations ?ops) of
                [] \<Rightarrow> (None, False)
              | iset # _ \<Rightarrow> (iset, True)), vm)"
    by (rule th[THEN conjunct1, THEN mp, OF conjI[OF run n]])
  then have g1: "getBlock ''7'' vm = Inr ((Some 0, True), vm)"
    unfolding r1 labelLookup_New by (simp add: sliceOf_def)
  have "getBlock ''8'' vm =
        Inr ((case sliceOf (labelLookup ?vm0 BLOCK ''8'') @ registered BLOCK ''8'' (registrations ?ops) of
                [] \<Rightarrow> (None, False)
              | iset # _ \<Rightarrow> (iset, True)), vm)"
    by (rule th[THEN conjunct1, THEN mp, OF conjI[OF run n]])
  then have g2: "getBlock ''8'' vm = Inr ((None, False), vm)"
    unfolding r2 labelLookup_New by (simp add: sliceOf_def)
  let ?regs = "[(Some 2, ''Block:7''), (Some 0, ''Block:7'')]"
  have "\<exists>vm1. setLabels ?regs ?vm0 = Inr vm1"
    by (simp add: setLabel_def labelNameType_def index_def labelTypes_def New_def)
  then obtain vm1 where run1: "setLabels ?regs ?vm0 = Inr vm1" by blast
  have r3: "registered BLOCK ''7'' ?regs = [Some 2, Some 0]"
    by (simp add: registered_def labelNameType_def index_def labelTypes_def)
  have "getBlock ''7'' vm1 =
          Inr ((case registered BLOCK ''7'' ?regs of
                  [] \<Rightarrow> (None, False)
                | iset # _ \<Rightarrow> (iset, True)), vm1)"
    by (rule th[THEN conjunct2, THEN conjunct1, THEN mp, OF run1])
  then have g3: "getBlock ''7'' vm1 = Inr ((Some 2, True), vm1)"
    unfolding r3 by simp
  from run c g1 g2 run1 g3 show ?thesis by blast
qed

section \<open>The evaluator: program order\<close>

lemma int64_id: "- (2 ^ 63) \<le> x \<Longrightarrow> x < 2 ^ 63 \<Longrightarrow> int64 x = x"
  by (simp add: int64_def mod_pos_pos_trivial)

lemma EvalCallFrame_unfold:
  assumes "frameCode vm cf = Inr (pc, instrs)"
  shows "EvalCallFrame Operation cf vm =
     (if pc < int (length instrs) then
        (case index instrs pc of
           Inl e \<Rightarrow> Some (Inl e)
         | Inr i \<Rightarrow>
             (case execInstruction Operation cf i vm of
                None \<Rightarrow> None
              | Some (Inl e) \<Rightarrow> Some (Inl e)
              | Some (Inr vm1) \<Rightarrow> EvalCallFrame Operation cf vm1))
      else Some (Inr vm))"
  using assms by (subst EvalCallFrame.simps) simp

lemma EvalCallFrame_done:
  assumes "frameCode vm cf = Inr (pc, instrs)" and "int (length instrs) \<le> pc"
  shows "EvalCallFrame Operation cf vm = Some (Inr vm)"
  using assms by (simp add: EvalCallFrame_unfold)

lemma EvalCallFrame_step:
  assumes "frameCode vm cf = Inr (pc, instrs)" and "0 \<le> pc" and "pc < int (length instrs)"
  shows "EvalCallFrame Operation cf vm =
     (case execInstruction Operation cf (instrs ! nat pc) vm of
        None \<Rightarrow> None
      | Some (Inl e) \<Rightarrow> Some (Inl e)
      | Some (Inr vm') \<Rightarrow> EvalCallFrame Operation cf vm')"
  using assms by (simp add: EvalCallFrame_unfold index_def)


lemma EvalCallFrame_runInOrder:
  assumes "frameCode vm cf = Inr (pc, instrs)" and "0 \<le> pc"
    and "int (length instrs) < 2 ^ 63"
    and "opsKeepPC Operation cf (drop (nat pc) instrs) vm"
  shows "EvalCallFrame Operation cf vm = runInOrder Operation cf (drop (nat pc) instrs) vm"
  using assms
proof (induction "length instrs - nat pc" arbitrary: pc vm)
  case 0
  then have "int (length instrs) \<le> pc" by simp
  with 0 show ?case by (simp add: EvalCallFrame_done)
next
  case (Suc d)
  then have lt: "pc < int (length instrs)" by simp
  then have dr: "drop (nat pc) instrs = instrs ! nat pc # drop (nat (pc + 1)) instrs"
    using Suc.prems(2) by (simp add: Cons_nth_drop_Suc nat_add_distrib)
  have w: "int64 (pc + 1) = pc + 1"
    by (rule int64_id) (use lt Suc.prems(2,3) in simp_all)
  note step = EvalCallFrame_step[OF Suc.prems(1,2) lt]
  show ?case
  proof (cases "execInstruction Operation cf (instrs ! nat pc) vm")
    case None
    then show ?thesis by (simp add: step dr)
  next
    case (Some res)
    show ?thesis
    proof (cases res)
      case (Inl e)
      then show ?thesis using Some by (simp add: step dr)
    next
      case (Inr vm')
      from Suc.prems(4) have k: "frameCode vm' cf = Inr (pc + 1, instrs)"
        and o: "opsKeepPC Operation cf (drop (nat (pc + 1)) instrs) vm'"
        by (simp_all add: dr Some Inr Suc.prems(1) pcAdvanced_def w)
      have "d = length instrs - nat (pc + 1)" using Suc.hyps(2) Suc.prems(2) by simp
      from Suc.hyps(1)[OF this k _ Suc.prems(3) o] Suc.prems(2)
      have "EvalCallFrame Operation cf vm' =
              runInOrder Operation cf (drop (nat (pc + 1)) instrs) vm'"
        by simp
      then show ?thesis using Some Inr by (simp add: step dr)
    qed
  qed
qed





section \<open>Starting a program\<close>

text \<open>
  Claim C3, as the spec has it, fails on the code. \<^verbatim>\<open>Exec\<close> pushes nothing: it reads
  the frame on top of the call-frame stack and evaluates it. On a fresh VM with an
  instruction set registered as \<^verbatim>\<open>ProgramStart\<close> and no frame pushed, the label table
  holds \<^verbatim>\<open>ProgramStart\<close>, the call-frame stack is empty, and \<^verbatim>\<open>Exec\<close> runs no
  instruction: the read of the top frame finds none and panics.
\<close>

theorem C3_Exec_pushes_no_frame:
  "(case setLabel (Some 0) ''ProgramStart''
           (New [0 \<mapsto> \<lparr>Label = None, Instructions = [PushPointer None]\<rparr>] Map.empty
              :: (unit exampleInstr, unit) VM) of
      Inl e \<Rightarrow> None
    | Inr vm \<Rightarrow>
        Some (labelLookup vm PROGRAM ''ProgramStart'', CallFrames vm, CFP vm,
              Exec CallFrameStack_Top exampleOperation vm))
   = Some (Some [Some 0], [], 0, Some (Inl IndexOutOfRange))"
  by (simp add: setLabel_def labelNameType_def New_def labelLookup_def sliceOf_def Exec_def
      CallFrameStack_Top_def index_def)

text \<open>
  Claim C3, amended. \<^verbatim>\<open>Exec\<close> pushes no frame: on every VM it enters the evaluator on
  the frame that \<^verbatim>\<open>CallFrameStack.Top\<close> returns, on the VM as it is (and panics where
  \<^verbatim>\<open>Top\<close> does). For every VM whose label table holds a \<^verbatim>\<open>ProgramStart\<close> instruction
  set and whose top frame is a frame for that instruction set at \<^verbatim>\<open>PC = 0\<close> (pushed by
  the embedder beforehand), calling \<^verbatim>\<open>Exec\<close> begins execution at \<^verbatim>\<open>ProgramStart\<close>: it
  executes the first instruction of \<^verbatim>\<open>ProgramStart\<close> and goes on in the evaluator
  from the state that leaves (it returns at once when \<^verbatim>\<open>ProgramStart\<close> has no
  instruction); and when no executed operation modifies the \<^verbatim>\<open>PC\<close>, it runs the
  instructions of \<^verbatim>\<open>ProgramStart\<close> in program order.
\<close>

theorem C3_Exec_evaluates_top_frame:
  "Exec frameTop Operation w =
     (case frameTop w of
        Inl e \<Rightarrow> Some (Inl e)
      | Inr cf \<Rightarrow> EvalCallFrame Operation cf w)
   \<and> (labelLookup vm PROGRAM ''ProgramStart'' = Some (Some r # rest)
        \<and> ISHeap vm r = Some s
        \<and> frameTop vm = Inr (Some c)
        \<and> CFHeap vm c = Some \<lparr>InstructionSet = Some r, PC = 0\<rparr> \<longrightarrow>
        Exec frameTop Operation vm = EvalCallFrame Operation (Some c) vm
        \<and> (Instructions s = [] \<longrightarrow> Exec frameTop Operation vm = Some (Inr vm))
        \<and> (Instructions s = i0 # others \<longrightarrow>
             Exec frameTop Operation vm =
               (case execInstruction Operation (Some c) i0 vm of
                  None \<Rightarrow> None
                | Some (Inl e) \<Rightarrow> Some (Inl e)
                | Some (Inr vm1) \<Rightarrow> EvalCallFrame Operation (Some c) vm1))
        \<and> (int (length (Instructions s)) < 2 ^ 63
             \<and> opsKeepPC Operation (Some c) (Instructions s) vm \<longrightarrow>
             Exec frameTop Operation vm = runInOrder Operation (Some c) (Instructions s) vm))"
proof -
  have u: "Exec frameTop Operation w =
     (case frameTop w of Inl e \<Rightarrow> Some (Inl e) | Inr cf \<Rightarrow> EvalCallFrame Operation cf w)"
    by (simp add: Exec_def)
  have p: "Exec frameTop Operation vm = EvalCallFrame Operation (Some c) vm
        \<and> (Instructions s = [] \<longrightarrow> Exec frameTop Operation vm = Some (Inr vm))
        \<and> (Instructions s = i0 # others \<longrightarrow>
             Exec frameTop Operation vm =
               (case execInstruction Operation (Some c) i0 vm of
                  None \<Rightarrow> None
                | Some (Inl e) \<Rightarrow> Some (Inl e)
                | Some (Inr vm1) \<Rightarrow> EvalCallFrame Operation (Some c) vm1))
        \<and> (int (length (Instructions s)) < 2 ^ 63
             \<and> opsKeepPC Operation (Some c) (Instructions s) vm \<longrightarrow>
             Exec frameTop Operation vm = runInOrder Operation (Some c) (Instructions s) vm)"
    if h: "labelLookup vm PROGRAM ''ProgramStart'' = Some (Some r # rest)
        \<and> ISHeap vm r = Some s
        \<and> frameTop vm = Inr (Some c)
        \<and> CFHeap vm c = Some \<lparr>InstructionSet = Some r, PC = 0\<rparr>"
  proof -
    have f: "frameCode vm (Some c) = Inr (0, Instructions s)"
      using h by (simp add: frameCode_def)
    have x: "Exec frameTop Operation vm = EvalCallFrame Operation (Some c) vm"
      using h by (simp add: Exec_def)
    have e: "EvalCallFrame Operation (Some c) vm = Some (Inr vm)" if "Instructions s = []"
      using that EvalCallFrame_done[OF f] by simp
    have st: "EvalCallFrame Operation (Some c) vm =
               (case execInstruction Operation (Some c) i0 vm of
                  None \<Rightarrow> None
                | Some (Inl e) \<Rightarrow> Some (Inl e)
                | Some (Inr vm1) \<Rightarrow> EvalCallFrame Operation (Some c) vm1)"
      if "Instructions s = i0 # others"
      using that EvalCallFrame_step[OF f, of Operation] by simp
    have o: "EvalCallFrame Operation (Some c) vm =
               runInOrder Operation (Some c) (Instructions s) vm"
      if "int (length (Instructions s)) < 2 ^ 63
             \<and> opsKeepPC Operation (Some c) (Instructions s) vm"
      using that EvalCallFrame_runInOrder[OF f, of Operation] by simp
    from x e st o show ?thesis by simp
  qed
  from u p show ?thesis by blast
qed

theorem C3_Exec_evaluates_top_frame_witness:
  "\<exists>vm0 vm'.
      setLabel (Some 0) ''ProgramStart''
        (New [0 \<mapsto> \<lparr>Label = None,
                     Instructions =
                       [PushPointer (Some \<lparr>Target = ClassObject NullClass\<rparr>), PushPointer None]\<rparr>]
             [0 \<mapsto> \<lparr>InstructionSet = Some 0, PC = 0\<rparr>] :: (unit exampleInstr, unit) VM)
        = Inr vm0
    \<and> Exec CallFrameStack_Top exampleOperation (vm0\<lparr>CallFrames := [Some 0]\<rparr>) = Some (Inr vm')
    \<and> Data vm' = [Some \<lparr>Target = ClassObject NullClass\<rparr>, None] \<and> SP vm' = 2"
proof -
  let ?code = "[PushPointer (Some \<lparr>Target = ClassObject NullClass\<rparr>), PushPointer None]
                 :: unit exampleInstr list"
  let ?new = "New [0 \<mapsto> \<lparr>Label = None, Instructions = ?code\<rparr>]
               [0 \<mapsto> \<lparr>InstructionSet = Some 0, PC = 0\<rparr>] :: (unit exampleInstr, unit) VM"
  let ?s = "\<lparr>Label = Some \<lparr>Name = ''ProgramStart'', Type = PROGRAM\<rparr>, Instructions = ?code\<rparr>"
  have "\<exists>vm0. setLabel (Some 0) ''ProgramStart'' ?new = Inr vm0
          \<and> labelLookup vm0 PROGRAM ''ProgramStart'' = Some [Some 0]
          \<and> ISHeap vm0 0 = Some ?s
          \<and> CFHeap vm0 0 = Some \<lparr>InstructionSet = Some 0, PC = 0\<rparr>
          \<and> Data vm0 = [] \<and> SP vm0 = 0 \<and> CFP vm0 = 0"
    by (simp add: setLabel_def labelNameType_def New_def labelLookup_def sliceOf_def)
  then obtain vm0 where s: "setLabel (Some 0) ''ProgramStart'' ?new = Inr vm0"
    and l: "labelLookup vm0 PROGRAM ''ProgramStart'' = Some [Some 0]"
    and h: "ISHeap vm0 0 = Some ?s"
    and f: "CFHeap vm0 0 = Some \<lparr>InstructionSet = Some 0, PC = 0\<rparr>"
    and d: "Data vm0 = []" "SP vm0 = 0" "CFP vm0 = 0"
    by blast
  let ?vm = "vm0\<lparr>CallFrames := [Some 0]\<rparr>"
  have l': "labelLookup ?vm PROGRAM ''ProgramStart'' = Some (Some 0 # [])"
    using l by (simp add: labelLookup_def)
  have h': "ISHeap ?vm 0 = Some ?s" using h by simp
  have t: "CallFrameStack_Top ?vm = Inr (Some 0)"
    using d by (simp add: CallFrameStack_Top_def index_def)
  have f': "CFHeap ?vm 0 = Some \<lparr>InstructionSet = Some 0, PC = 0\<rparr>" using f by simp
  have n: "int (length (Instructions ?s)) < 2 ^ 63" by simp
  have k: "opsKeepPC exampleOperation (Some 0) (Instructions ?s) ?vm"
    using h f d
    by (simp add: execInstruction_def exampleOperation_def push_def frameCode_def
        pcAdvanced_def int64_def)
  have "\<exists>vm'. runInOrder exampleOperation (Some 0) (Instructions ?s) ?vm = Some (Inr vm')
           \<and> Data vm' = [Some \<lparr>Target = ClassObject NullClass\<rparr>, None] \<and> SP vm' = 2"
    using f d by (simp add: execInstruction_def exampleOperation_def push_def)
  then obtain vm' where
    r: "runInOrder exampleOperation (Some 0) (Instructions ?s) ?vm = Some (Inr vm')"
    and d': "Data vm' = [Some \<lparr>Target = ClassObject NullClass\<rparr>, None]" "SP vm' = 2"
    by blast
  have "Exec CallFrameStack_Top exampleOperation ?vm
          = runInOrder exampleOperation (Some 0) (Instructions ?s) ?vm"
    using C3_Exec_evaluates_top_frame[where vm = ?vm and r = 0 and rest = "[]" and s = ?s
        and c = 0 and frameTop = CallFrameStack_Top and Operation = exampleOperation]
      l' h' t f' n k
    by blast
  then have "Exec CallFrameStack_Top exampleOperation ?vm = Some (Inr vm')" unfolding r .
  with s d' show ?thesis by blast
qed

end
